theory Spec2Isabelle
  imports Complex_Main
begin

section \<open>Python primitives used by the extraction code\<close>

text \<open>
  Python floats are modelled as exact reals and Python's unbounded integers as \<open>int\<close>.
  Strings are lists of characters whose code points lie below 256; text outside that
  range is not covered by the model.
\<close>

datatype py_error = ZeroDivisionError



section \<open>Stacked-box splitter (color_based_extraction.py)\<close>

type_synonym box = "int \<times> int \<times> int \<times> int"

definition STANDARD_SIGN_HEIGHT_PIXELS :: int where
  "STANDARD_SIGN_HEIGHT_PIXELS = 40"


section \<open>Strings\<close>

text \<open>
  \<^verbatim>\<open>str.isspace\<close>, \<^verbatim>\<open>str.isdigit\<close> and the regular expression class
  \<^verbatim>\<open>\d\<close>, for code points below 256.
\<close>

definition py_isspace :: "char \<Rightarrow> bool" where
  "py_isspace c =
     (let n = (of_char c :: nat)
      in (9 \<le> n \<and> n \<le> 13) \<or> (28 \<le> n \<and> n \<le> 32) \<or> n = 133 \<or> n = 160)"

definition re_digit :: "char \<Rightarrow> bool" where
  "re_digit c = (let n = (of_char c :: nat) in 48 \<le> n \<and> n \<le> 57)"

definition py_isdigit :: "char \<Rightarrow> bool" where
  "py_isdigit c =
     (let n = (of_char c :: nat)
      in (48 \<le> n \<and> n \<le> 57) \<or> n = 178 \<or> n = 179 \<or> n = 185)"

text \<open>\<^verbatim>\<open>s.strip()\<close> and \<^verbatim>\<open>s.strip('.')\<close>.\<close>

definition strip_with :: "(char \<Rightarrow> bool) \<Rightarrow> string \<Rightarrow> string" where
  "strip_with P s = rev (dropWhile P (rev (dropWhile P s)))"

definition py_strip :: "string \<Rightarrow> string" where
  "py_strip s = strip_with py_isspace s"

definition strip_dots :: "string \<Rightarrow> string" where
  "strip_dots s = strip_with (\<lambda>c. c = CHR ''.'') s"

text \<open>\<^verbatim>\<open>s.split(sep)\<close> for a one-character separator; it never returns the empty list.\<close>

fun py_split :: "char \<Rightarrow> string \<Rightarrow> string list" where
  "py_split sep [] = [[]]"
| "py_split sep (c # cs) =
     (if c = sep then [] # py_split sep cs
      else (case py_split sep cs of
              [] \<Rightarrow> [[c]]
            | p # ps \<Rightarrow> (c # p) # ps))"

text \<open>\<^verbatim>\<open>s.startswith(prefix)\<close>.\<close>

definition startswith :: "string \<Rightarrow> string \<Rightarrow> bool" where
  "startswith s pre = (take (length pre) s = pre)"

section \<open>OCR ensemble extractor (color_based_extraction.py)\<close>

text \<open>
  The OCR engine is a collaborator. For one preprocessed image and one layout mode it
  answers two calls, each of which may raise: \<^verbatim>\<open>image_to_string\<close> gives the raw text,
  \<^verbatim>\<open>image_to_data\<close> gives the \<^verbatim>\<open>conf\<close> column, where \<open>None\<close> stands for a
  cell equal to the string \<^verbatim>\<open>'-1'\<close> and \<open>Some c\<close> for a cell whose float value is
  \<open>c\<close>. The engine is asked about a crop of the page (its bounds), a preprocessing
  variant and a page segmentation mode; cropping, scaling and thresholding are part of
  the collaborator.
\<close>

datatype 'a attempt = Raised | Returned 'a

record ocr_reply =
  image_to_string :: "string attempt"
  image_to_data :: "real option list attempt"

type_synonym roi = "int \<times> int \<times> int \<times> int"

type_synonym ocr_engine = "roi \<Rightarrow> string \<Rightarrow> nat \<Rightarrow> ocr_reply"

record ocr_result =
  result_text :: string
  confidence :: real
  psm :: nat
  preprocess :: string

text \<open>
  The region handed to the engine: \<^verbatim>\<open>(x_start, y_start, x_end, y_end)\<close> for an image
  of shape \<^verbatim>\<open>(height, width)\<close>.
\<close>

definition roi_bounds :: "int \<times> int \<Rightarrow> box \<Rightarrow> roi" where
  "roi_bounds shape bbox =
     (case shape of (height, width) \<Rightarrow>
      case bbox of (x, y, w, h) \<Rightarrow>
        let vertical_padding = 50;
            horizontal_padding = 20;
            x_start = max 0 (x - horizontal_padding);
            y_start = max 0 (y - vertical_padding);
            x_end = min width (x + w + horizontal_padding);
            y_end = min height (y + h + 10)
        in (x_start, y_start, x_end, y_end))"

text \<open>\<^verbatim>\<open>_clean_sign_number(text)\<close>.\<close>

definition clean_sign_number :: "string \<Rightarrow> string" where
  "clean_sign_number t =
     (let t' = strip_dots t in
      if list_ex py_isdigit t' then
        (let parts = py_split (CHR ''.'') t' in
         if length parts \<le> 2 then t' else [])
      else [])"

definition preprocess_names :: "string list" where
  "preprocess_names = [''otsu'', ''otsu_inv'', ''clahe'', ''clahe_inv'']"

definition psm_modes :: "nat list" where
  "psm_modes = [8, 11]"

text \<open>The loop nest visits the preprocessed images in order and, for each, both modes.\<close>

definition combinations :: "(string \<times> nat) list" where
  "combinations = concat (map (\<lambda>name. map (\<lambda>m. (name, m)) psm_modes) preprocess_names)"

text \<open>
  The body of the \<^verbatim>\<open>try\<close> block for one combination: \<open>None\<close> when nothing is
  appended to \<^verbatim>\<open>results\<close>, which includes every exception of the engine.
\<close>

definition try_combination :: "ocr_reply \<Rightarrow> string \<Rightarrow> nat \<Rightarrow> ocr_result option" where
  "try_combination reply preprocess_name m =
     (case image_to_string reply of
        Raised \<Rightarrow> None
      | Returned raw \<Rightarrow>
          let t = py_strip raw in
          if t = [] then None
          else
            let t = clean_sign_number t in
            if t \<noteq> [] \<and> 3 \<le> length t then
              (case image_to_data reply of
                 Raised \<Rightarrow> None
               | Returned conf \<Rightarrow>
                   let confidences = List.map_filter (\<lambda>c. c) conf;
                       avg_conf = (if confidences = [] then 0
                                   else sum_list confidences / real (length confidences))
                   in if avg_conf > 30
                      then Some \<lparr>result_text = t, confidence = avg_conf, psm = m,
                                 preprocess = preprocess_name\<rparr>
                      else None)
            else None)"

fun ocr_loop :: "ocr_engine \<Rightarrow> roi \<Rightarrow> (string \<times> nat) list \<Rightarrow> ocr_result list \<Rightarrow> ocr_result list" where
  "ocr_loop engine r [] results = results"
| "ocr_loop engine r ((name, m) # cs) results =
     (case try_combination (engine r name m) name m of
        None \<Rightarrow> ocr_loop engine r cs results
      | Some res \<Rightarrow> ocr_loop engine r cs (results @ [res]))"

text \<open>
  Python compares the key tuples \<^verbatim>\<open>(confidence, len(text))\<close> lexicographically, and
  \<^verbatim>\<open>max\<close> keeps the first element whose key is not exceeded later.
\<close>

definition result_key :: "ocr_result \<Rightarrow> real \<times> nat" where
  "result_key res = (confidence res, length (result_text res))"

definition key_less :: "real \<times> nat \<Rightarrow> real \<times> nat \<Rightarrow> bool" where
  "key_less a b = (fst a < fst b \<or> (fst a = fst b \<and> snd a < snd b))"

fun py_max :: "ocr_result \<Rightarrow> ocr_result list \<Rightarrow> ocr_result" where
  "py_max best [] = best"
| "py_max best (res # rs) =
     (if key_less (result_key best) (result_key res) then py_max res rs else py_max best rs)"

definition ocr_candidates :: "ocr_engine \<Rightarrow> int \<times> int \<Rightarrow> box \<Rightarrow> ocr_result list" where
  "ocr_candidates engine shape bbox = ocr_loop engine (roi_bounds shape bbox) combinations []"

definition extract_sign_number :: "ocr_engine \<Rightarrow> int \<times> int \<Rightarrow> box \<Rightarrow> ocr_result option" where
  "extract_sign_number engine shape bbox =
     (case ocr_candidates engine shape bbox of
        [] \<Rightarrow> None
      | res # rs \<Rightarrow> Some (py_max res rs))"

record SignDetection =
  det_sign_number :: string
  x_percentage :: real
  y_percentage :: real
  width_percentage :: real
  height_percentage :: real
  det_confidence :: real

text \<open>
  The body of the loop of \<^verbatim>\<open>process_image\<close> for a box with an OCR result; the
  divisions by the image width and height raise on zero.
\<close>

definition make_detection :: "int \<times> int \<Rightarrow> box \<Rightarrow> ocr_result \<Rightarrow> py_error + SignDetection" where
  "make_detection shape b res =
     (case shape of (height, width) \<Rightarrow>
      case b of (x, y, w, h) \<Rightarrow>
        let x_center = real_of_int x + real_of_int w / 2;
            y_center = real_of_int y + real_of_int h / 2
        in if width = 0 \<or> height = 0 then Inl ZeroDivisionError
           else Inr \<lparr>det_sign_number = result_text res,
                     x_percentage = (x_center / real_of_int width) * 100,
                     y_percentage = (y_center / real_of_int height) * 100,
                     width_percentage = (real_of_int w / real_of_int width) * 100,
                     height_percentage = (real_of_int h / real_of_int height) * 100,
                     det_confidence = confidence res\<rparr>)"

fun process_boxes ::
  "ocr_engine \<Rightarrow> int \<times> int \<Rightarrow> box list \<Rightarrow> SignDetection list \<Rightarrow> py_error + SignDetection list" where
  "process_boxes engine shape [] detections = Inr detections"
| "process_boxes engine shape (b # bs) detections =
     (case extract_sign_number engine shape b of
        None \<Rightarrow> process_boxes engine shape bs detections
      | Some res \<Rightarrow>
          (case make_detection shape b res of
             Inl e \<Rightarrow> Inl e
           | Inr d \<Rightarrow> process_boxes engine shape bs (detections @ [d])))"

text \<open>
  \<^verbatim>\<open>process_image\<close>; the boxes are those returned by \<^verbatim>\<open>detect_color_boxes\<close>, a
  collaborator working on pixels.
\<close>

definition process_image ::
  "ocr_engine \<Rightarrow> int \<times> int \<Rightarrow> box list \<Rightarrow> py_error + (SignDetection list \<times> box list)" where
  "process_image engine shape boxes =
     (case process_boxes engine shape boxes [] of
        Inl e \<Rightarrow> Inl e
      | Inr detections \<Rightarrow> Inr (detections, boxes))"

section \<open>Statements of the specification, for comparison with the code\<close>

text \<open>
  The crop as the specification describes it: the box, 50 pixels more above, 20 pixels
  more on each horizontal side, nothing more below, every edge clamped to the page.
\<close>

definition claimed_roi :: "int \<times> int \<Rightarrow> box \<Rightarrow> roi" where
  "claimed_roi shape bbox =
     (case shape of (height, width) \<Rightarrow>
      case bbox of (x, y, w, h) \<Rightarrow>
        (max 0 (min width (x - 20)), max 0 (min height (y - 50)),
         max 0 (min width (x + w + 20)), max 0 (min height (y + h))))"

text \<open>
  Survival of one (preprocessing, layout mode) combination as the specification words
  it: the engine answered both calls, and the text, after trimming leading and trailing
  periods, contains a digit, has at most one period, is at least 3 characters long, and
  the averaged confidence exceeds 30. The text is what the code hands to the trimming:
  the engine's output without surrounding white space.
\<close>

definition averaged :: "real option list \<Rightarrow> real" where
  "averaged conf =
     (let cs = List.map_filter (\<lambda>c. c) conf
      in if cs = [] then 0 else sum_list cs / real (length cs))"

definition survives :: "ocr_reply \<Rightarrow> bool" where
  "survives reply =
     (case image_to_string reply of
        Raised \<Rightarrow> False
      | Returned raw \<Rightarrow>
          (case image_to_data reply of
             Raised \<Rightarrow> False
           | Returned conf \<Rightarrow>
               let t = strip_dots (py_strip raw)
               in list_ex py_isdigit t \<and> count_list t (CHR ''.'') \<le> 1 \<and> 3 \<le> length t \<and>
                  30 < averaged conf))"

definition candidate_of :: "ocr_reply \<Rightarrow> string \<Rightarrow> nat \<Rightarrow> ocr_result" where
  "candidate_of reply name m =
     \<lparr>result_text = (case image_to_string reply of Raised \<Rightarrow> [] | Returned raw \<Rightarrow> strip_dots (py_strip raw)),
      confidence = (case image_to_data reply of Raised \<Rightarrow> 0 | Returned conf \<Rightarrow> averaged conf),
      psm = m, preprocess = name\<rparr>"

section \<open>Sample inputs\<close>

text \<open>
  An engine that reads \<^verbatim>\<open>.2001.1\<close> with confidences 80 and 90 from the first
  combination, \<^verbatim>\<open>2001\<close> with confidence 85 from the two contrast-enhanced ones,
  and raises everywhere else; and an engine that always raises.
\<close>

definition sample_engine :: ocr_engine where
  "sample_engine r name m =
     (if name = ''otsu'' \<and> m = 8
      then \<lparr>image_to_string = Returned ''.2001.1 '',
            image_to_data = Returned [None, Some 80, Some 90]\<rparr>
      else if name = ''clahe''
      then \<lparr>image_to_string = Returned ''2001'', image_to_data = Returned [Some 85]\<rparr>
      else \<lparr>image_to_string = Raised, image_to_data = Raised\<rparr>)"

definition failing_engine :: ocr_engine where
  "failing_engine r name m = \<lparr>image_to_string = Raised, image_to_data = Raised\<rparr>"


section \<open>Embedded-text extractor (pdf_text_extraction.py)\<close>

text \<open>
  \<^verbatim>\<open>SIGN_PATTERN = re.compile(r'^(\d{4}(?:\.\d+)?)$')\<close>. \<open>label_body\<close> is the
  pattern between the anchors, matched against a whole string: four digits, then
  nothing or a period and at least one digit.
\<close>

definition label_body :: "string \<Rightarrow> bool" where
  "label_body s =
     (4 \<le> length s \<and> list_all re_digit (take 4 s) \<and>
      (case drop 4 s of
         [] \<Rightarrow> True
       | c # ds \<Rightarrow> c = CHR ''.'' \<and> ds \<noteq> [] \<and> list_all re_digit ds))"

text \<open>
  \<^verbatim>\<open>SIGN_PATTERN.match(s)\<close>, giving \<^verbatim>\<open>match.group(1)\<close>. The anchor
  \<^verbatim>\<open>$\<close> also matches just before a newline that ends the string.
\<close>

definition SIGN_PATTERN_match :: "string \<Rightarrow> string option" where
  "SIGN_PATTERN_match s =
     (if label_body s then Some s
      else if s \<noteq> [] \<and> last s = CHR 0x0A \<and> label_body (butlast s) then Some (butlast s)
      else None)"

definition HOTSPOT_EXPANSION :: real where
  "HOTSPOT_EXPANSION = 0.3"

record SignHotspot =
  sign_number :: string
  page :: int
  text_x :: real
  text_y :: real
  text_width :: real
  text_height :: real
  hotspot_x_percentage :: real
  hotspot_y_percentage :: real
  hotspot_width_percentage :: real
  hotspot_height_percentage :: real
  hotspot_confidence :: string

text \<open>
  What the page's text layer gives: \<^verbatim>\<open>page.get_text("dict")\<close> is a list of blocks,
  each with a type and lines of spans; \<^verbatim>\<open>page.get_text("blocks")\<close> is a list of
  tuples \<^verbatim>\<open>(x0, y0, x1, y1, text, block_no, block_type)\<close>.
\<close>

record span =
  span_text :: string
  span_bbox :: "real \<times> real \<times> real \<times> real"

record dict_block =
  block_type :: int
  block_lines :: "span list list"

type_synonym text_block = "real \<times> real \<times> real \<times> real \<times> string \<times> int \<times> int"

record pdf_page =
  page_width :: real
  page_height :: real
  dict_blocks :: "dict_block list"
  text_blocks :: "text_block list"

text \<open>
  The hotspot computation, written twice in the source with the same text: the box is
  grown by \<open>HOTSPOT_EXPANSION\<close> of its size on every side and divided by the page
  size; the float division raises on a zero page width or height.
\<close>

definition make_hotspot ::
  "real \<Rightarrow> real \<Rightarrow> int \<Rightarrow> string \<Rightarrow> real \<Rightarrow> real \<Rightarrow> real \<Rightarrow> real \<Rightarrow> py_error + SignHotspot" where
  "make_hotspot pw ph page_num number tx ty tw th =
     (let expansion_x = tw * HOTSPOT_EXPANSION;
          expansion_y = th * HOTSPOT_EXPANSION;
          hotspot_x = tx - expansion_x;
          hotspot_y = ty - expansion_y;
          hotspot_width = tw + (2 * expansion_x);
          hotspot_height = th + (2 * expansion_y)
      in if pw = 0 \<or> ph = 0 then Inl ZeroDivisionError
         else Inr \<lparr>sign_number = number, page = page_num,
                   text_x = tx, text_y = ty, text_width = tw, text_height = th,
                   hotspot_x_percentage = (hotspot_x / pw) * 100,
                   hotspot_y_percentage = (hotspot_y / ph) * 100,
                   hotspot_width_percentage = (hotspot_width / pw) * 100,
                   hotspot_height_percentage = (hotspot_height / ph) * 100,
                   hotspot_confidence = ''embedded''\<rparr>)"

text \<open>The spans visited by the first loop nest: those of the blocks of type 0, in order.\<close>

definition dict_spans :: "dict_block list \<Rightarrow> span list" where
  "dict_spans blocks =
     concat (map (\<lambda>b. if block_type b = 0 then concat (block_lines b) else []) blocks)"

fun span_walk ::
  "real \<Rightarrow> real \<Rightarrow> int \<Rightarrow> span list \<Rightarrow> SignHotspot list \<Rightarrow> py_error + SignHotspot list" where
  "span_walk pw ph page_num [] signs = Inr signs"
| "span_walk pw ph page_num (sp # sps) signs =
     (case SIGN_PATTERN_match (py_strip (span_text sp)) of
        None \<Rightarrow> span_walk pw ph page_num sps signs
      | Some number \<Rightarrow>
          (case span_bbox sp of (b0, b1, b2, b3) \<Rightarrow>
             (case make_hotspot pw ph page_num number b0 b1 (b2 - b0) (b3 - b1) of
                Inl e \<Rightarrow> Inl e
              | Inr sign \<Rightarrow> span_walk pw ph page_num sps (signs @ [sign]))))"

text \<open>The backup scan: the lines of one block, then the blocks.\<close>

fun line_walk ::
  "real \<Rightarrow> real \<Rightarrow> int \<Rightarrow> real \<times> real \<times> real \<times> real \<Rightarrow> nat \<Rightarrow> string list \<Rightarrow>
     SignHotspot list \<Rightarrow> py_error + SignHotspot list" where
  "line_walk pw ph page_num geom n [] signs = Inr signs"
| "line_walk pw ph page_num geom n (line # ls) signs =
     (case SIGN_PATTERN_match (py_strip line) of
        None \<Rightarrow> line_walk pw ph page_num geom n ls signs
      | Some number \<Rightarrow>
          if \<not> list_ex (\<lambda>s. sign_number s = number) signs then
            (case geom of (x0, y0, x1, y1) \<Rightarrow>
               (case make_hotspot pw ph page_num number x0 y0 (x1 - x0) ((y1 - y0) / real n) of
                  Inl e \<Rightarrow> Inl e
                | Inr sign \<Rightarrow> line_walk pw ph page_num geom n ls (signs @ [sign])))
          else line_walk pw ph page_num geom n ls signs)"

fun block_walk ::
  "real \<Rightarrow> real \<Rightarrow> int \<Rightarrow> text_block list \<Rightarrow> SignHotspot list \<Rightarrow> py_error + SignHotspot list" where
  "block_walk pw ph page_num [] signs = Inr signs"
| "block_walk pw ph page_num ((x0, y0, x1, y1, txt, block_no, btype) # bs) signs =
     (let lines = py_split (CHR 0x0A) (py_strip txt) in
      case line_walk pw ph page_num (x0, y0, x1, y1) (length lines) lines signs of
        Inl e \<Rightarrow> Inl e
      | Inr signs' \<Rightarrow> block_walk pw ph page_num bs signs')"

definition structured_walk :: "pdf_page \<Rightarrow> int \<Rightarrow> py_error + SignHotspot list" where
  "structured_walk p page_num =
     span_walk (page_width p) (page_height p) page_num (dict_spans (dict_blocks p)) []"

definition extract_signs_from_page :: "pdf_page \<Rightarrow> int \<Rightarrow> py_error + SignHotspot list" where
  "extract_signs_from_page p page_num =
     (case structured_walk p page_num of
        Inl e \<Rightarrow> Inl e
      | Inr signs \<Rightarrow> block_walk (page_width p) (page_height p) page_num (text_blocks p) signs)"

text \<open>
  The text layer of the specification's scenario A: the runs \<^verbatim>\<open>2001\<close>,
  \<^verbatim>\<open>2002\<close>, \<^verbatim>\<open>0000\<close> and \<^verbatim>\<open>20011\<close> on a 612 x 792 page.
\<close>

definition scenario_a_page :: pdf_page where
  "scenario_a_page =
     \<lparr>page_width = 612, page_height = 792,
      dict_blocks =
        [\<lparr>block_type = 0,
          block_lines = [[\<lparr>span_text = ''2001'', span_bbox = (100, 100, 130, 110)\<rparr>],
                         [\<lparr>span_text = ''2002'', span_bbox = (100, 120, 130, 130)\<rparr>],
                         [\<lparr>span_text = ''0000'', span_bbox = (100, 140, 130, 150)\<rparr>],
                         [\<lparr>span_text = ''20011'', span_bbox = (100, 160, 136, 170)\<rparr>]]\<rparr>],
      text_blocks = [(100, 100, 136, 170, (''2001'' @ [CHR 0x0A] @ ''2002'' @ [CHR 0x0A] @ ''0000'' @ [CHR 0x0A] @
                      ''20011'' @ [CHR 0x0A]), 0, 0)]\<rparr>"

text \<open>A page with the run \<^verbatim>\<open>2001\<close> one point away from the left and top edges.\<close>

definition corner_page :: pdf_page where
  "corner_page =
     \<lparr>page_width = 612, page_height = 792,
      dict_blocks =
        [\<lparr>block_type = 0,
          block_lines = [[\<lparr>span_text = ''2001'', span_bbox = (1, 1, 31, 11)\<rparr>]]\<rparr>],
      text_blocks = [(1, 1, 31, 11, (''2001'' @ [CHR 0x0A]), 0, 0)]\<rparr>"

text \<open>
  A page where each of two lines reads \<^verbatim>\<open>2001\<close> but is stored as the two runs
  \<^verbatim>\<open>20\<close> and \<^verbatim>\<open>01\<close>, so that only the block-level scan sees the label.
\<close>

definition split_runs_page :: pdf_page where
  "split_runs_page =
     \<lparr>page_width = 612, page_height = 792,
      dict_blocks =
        [\<lparr>block_type = 0,
          block_lines = [[\<lparr>span_text = ''20'', span_bbox = (100, 100, 115, 110)\<rparr>,
                          \<lparr>span_text = ''01'', span_bbox = (115, 100, 130, 110)\<rparr>]]\<rparr>,
         \<lparr>block_type = 0,
          block_lines = [[\<lparr>span_text = ''20'', span_bbox = (300, 400, 315, 410)\<rparr>,
                          \<lparr>span_text = ''01'', span_bbox = (315, 400, 330, 410)\<rparr>]]\<rparr>],
      text_blocks = [(100, 100, 130, 110, (''2001'' @ [CHR 0x0A]), 0, 0),
                     (300, 400, 330, 410, (''2001'' @ [CHR 0x0A]), 1, 0)]\<rparr>"

text \<open>
  The labels the backup scan meets, in order: for every block, the lines of its trimmed
  text whose trimmed content matches the pattern.
\<close>

definition line_labels :: "string list \<Rightarrow> string list" where
  "line_labels ls = List.map_filter (\<lambda>l. SIGN_PATTERN_match (py_strip l)) ls"

definition block_labels :: "text_block list \<Rightarrow> string list" where
  "block_labels bs =
     concat (map (\<lambda>(x0, y0, x1, y1, txt, block_no, btype).
                    line_labels (py_split (CHR 0x0A) (py_strip txt))) bs)"

definition fallback_labels :: "pdf_page \<Rightarrow> string list" where
  "fallback_labels p = block_labels (text_blocks p)"

text \<open>
  Keeping a label only when it was captured neither before the scan nor by an earlier
  line of the scan.
\<close>

fun keep_first :: "string set \<Rightarrow> string list \<Rightarrow> string list" where
  "keep_first seen [] = []"
| "keep_first seen (l # ls) =
     (if l \<in> seen then keep_first seen ls else l # keep_first (insert l seen) ls)"

text \<open>The labels of a result, or nothing when the extraction raised.\<close>

definition labels_of :: "py_error + SignHotspot list \<Rightarrow> string list option" where
  "labels_of r = (case r of Inl e \<Rightarrow> None | Inr signs \<Rightarrow> Some (map sign_number signs))"

text \<open>A page with the run \<^verbatim>\<open>2001\<close> well inside it.\<close>

definition padded_page :: pdf_page where
  "padded_page =
     \<lparr>page_width = 612, page_height = 792,
      dict_blocks =
        [\<lparr>block_type = 0,
          block_lines = [[\<lparr>span_text = ''2001'', span_bbox = (100, 100, 130, 110)\<rparr>]]\<rparr>],
      text_blocks = [(100, 100, 130, 110, (''2001'' @ [CHR 0x0A]), 0, 0)]\<rparr>"

text \<open>
  Percentages in \<open>[0, 100]\<close>; a marker box inside the raster; the native box of an
  embedded-text detection, grown by 30% on every side, inside the page.
\<close>

definition in_range :: "real \<Rightarrow> bool" where
  "in_range v = (0 \<le> v \<and> v \<le> 100)"

definition box_in_page :: "int \<times> int \<Rightarrow> box \<Rightarrow> bool" where
  "box_in_page shape b =
     (case shape of (height, width) \<Rightarrow>
      case b of (x, y, w, h) \<Rightarrow>
        0 \<le> x \<and> 0 \<le> y \<and> 0 \<le> w \<and> 0 \<le> h \<and> x + w \<le> width \<and> y + h \<le> height)"

definition detection_in_range :: "SignDetection \<Rightarrow> bool" where
  "detection_in_range d =
     (in_range (x_percentage d) \<and> in_range (y_percentage d) \<and>
      in_range (width_percentage d) \<and> in_range (height_percentage d))"

definition hotspot_formula :: "real \<Rightarrow> real \<Rightarrow> SignHotspot \<Rightarrow> bool" where
  "hotspot_formula pw ph s =
     (pw \<noteq> 0 \<and> ph \<noteq> 0 \<and>
      hotspot_x_percentage s = ((text_x s - 0.3 * text_width s) / pw) * 100 \<and>
      hotspot_y_percentage s = ((text_y s - 0.3 * text_height s) / ph) * 100 \<and>
      hotspot_width_percentage s = ((1.6 * text_width s) / pw) * 100 \<and>
      hotspot_height_percentage s = ((1.6 * text_height s) / ph) * 100)"

definition expanded_in_page :: "pdf_page \<Rightarrow> SignHotspot \<Rightarrow> bool" where
  "expanded_in_page p s =
     (0 \<le> text_width s \<and> 0 \<le> text_height s \<and>
      0 \<le> text_x s - 0.3 * text_width s \<and>
      text_x s + 1.3 * text_width s \<le> page_width p \<and>
      0 \<le> text_y s - 0.3 * text_height s \<and>
      text_y s + 1.3 * text_height s \<le> page_height p)"

definition hotspot_in_range :: "SignHotspot \<Rightarrow> bool" where
  "hotspot_in_range s =
     (in_range (hotspot_x_percentage s) \<and> in_range (hotspot_y_percentage s) \<and>
      in_range (hotspot_width_percentage s) \<and> in_range (hotspot_height_percentage s))"

section \<open>Proximity grouper (pdf_text_extraction.py)\<close>

text \<open>
  A sign as \<^verbatim>\<open>group_nearby_signs\<close> sees it: the dictionary made by
  \<^verbatim>\<open>to_dict\<close>, with the keys \<^verbatim>\<open>group\<close> and \<^verbatim>\<open>group_size\<close> absent
  (\<open>None\<close>) until the grouper writes them. A bounding box is the tuple of its four
  entries, in the order of the dictionary.
\<close>

record sign_dict =
  d_sign_number :: string
  text_bbox :: "real \<times> real \<times> real \<times> real"
  hotspot_bbox :: "real \<times> real \<times> real \<times> real"
  dict_confidence :: string
  group :: "string option"
  group_size :: "nat option"

definition bbox_x_percentage :: "real \<times> real \<times> real \<times> real \<Rightarrow> real" where
  "bbox_x_percentage b = fst b"

definition bbox_y_percentage :: "real \<times> real \<times> real \<times> real \<Rightarrow> real" where
  "bbox_y_percentage b = fst (snd b)"

text \<open>\<^verbatim>\<open>str(n)\<close> for a length.\<close>

definition digit_char :: "nat \<Rightarrow> char" where
  "digit_char d = ''0123456789'' ! d"

fun str_nat :: "nat \<Rightarrow> string" where
  "str_nat n = (if n < 10 then [digit_char n] else str_nat (n div 10) @ [digit_char (n mod 10)])"

declare str_nat.simps [simp del]

text \<open>\<^verbatim>\<open>sign1["sign_number"].split('.')[0]\<close> and \<^verbatim>\<open>'.' in sign1["sign_number"]\<close>.\<close>

definition base_number :: "string \<Rightarrow> string" where
  "base_number s = hd (py_split (CHR ''.'') s)"

definition is_series :: "string \<Rightarrow> bool" where
  "is_series s = (CHR ''.'' \<in> set s)"

text \<open>The test on the two offsets, with \<open>t\<close> the distance threshold.\<close>

definition near :: "real \<Rightarrow> sign_dict \<Rightarrow> sign_dict \<Rightarrow> bool" where
  "near t sign1 sign2 =
     (let dx = \<bar>bbox_x_percentage (hotspot_bbox sign1) - bbox_x_percentage (hotspot_bbox sign2)\<bar>;
          dy = \<bar>bbox_y_percentage (hotspot_bbox sign1) - bbox_y_percentage (hotspot_bbox sign2)\<bar>
      in (dx < t \<and> dy < t * 3) \<or> (dy < t \<and> dx < t * 3))"

text \<open>
  The inner loop over \<open>j\<close>. The list \<^verbatim>\<open>group\<close> holds references to the
  dictionaries of \<^verbatim>\<open>signs\<close>; the model keeps their indices.
\<close>

fun scan_series ::
  "real \<Rightarrow> sign_dict list \<Rightarrow> nat \<Rightarrow> string \<Rightarrow> nat list \<Rightarrow> nat list \<times> nat set \<Rightarrow> nat list \<times> nat set" where
  "scan_series t signs i base [] st = st"
| "scan_series t signs i base (j # js) (grp, used) =
     (if j \<noteq> i \<and> j \<notin> used \<and>
         startswith (d_sign_number (signs ! j)) (base @ ''.'') \<and>
         near t (signs ! i) (signs ! j)
      then scan_series t signs i base js (grp @ [j], insert j used)
      else scan_series t signs i base js (grp, used))"

text \<open>The group collected for the seed \<open>i\<close>, and the set \<^verbatim>\<open>used\<close> after it.\<close>

definition seed_group :: "real \<Rightarrow> sign_dict list \<Rightarrow> nat set \<Rightarrow> nat \<Rightarrow> nat list \<times> nat set" where
  "seed_group t signs used i =
     (if is_series (d_sign_number (signs ! i))
      then scan_series t signs i (base_number (d_sign_number (signs ! i))) [0 ..< length signs]
             ([i], insert i used)
      else ([i], insert i used))"

definition group_label :: "string \<Rightarrow> nat \<Rightarrow> string" where
  "group_label base n = base @ '' series ('' @ str_nat n @ '' signs)''"

definition annotate :: "string \<Rightarrow> nat \<Rightarrow> sign_dict \<Rightarrow> sign_dict" where
  "annotate l n s = s\<lparr>group := Some l, group_size := Some n\<rparr>"

fun annotate_group :: "string \<Rightarrow> nat \<Rightarrow> nat list \<Rightarrow> sign_dict list \<Rightarrow> sign_dict list" where
  "annotate_group l n [] signs = signs"
| "annotate_group l n (j # js) signs =
     annotate_group l n js (signs[j := annotate l n (signs ! j)])"

text \<open>One turn of the outer loop, on the signs and the set \<^verbatim>\<open>used\<close>.\<close>

definition group_step :: "real \<Rightarrow> nat \<Rightarrow> sign_dict list \<times> nat set \<Rightarrow> sign_dict list \<times> nat set" where
  "group_step t i st =
     (case st of (signs, used) \<Rightarrow>
        if i \<in> used then (signs, used)
        else
          (case seed_group t signs used i of (grp, used') \<Rightarrow>
             if length grp > 1
             then (annotate_group
                     (group_label (base_number (d_sign_number (signs ! i))) (length grp))
                     (length grp) grp signs, used')
             else (signs, used')))"

fun group_outer ::
  "real \<Rightarrow> nat list \<Rightarrow> sign_dict list \<times> nat set \<Rightarrow> sign_dict list \<times> nat set" where
  "group_outer t [] st = st"
| "group_outer t (i # is) st = group_outer t is (group_step t i st)"

text \<open>The body of the loop over the pages, for the signs of one page.\<close>

definition group_page :: "real \<Rightarrow> sign_dict list \<Rightarrow> sign_dict list" where
  "group_page t signs =
     (if length signs < 2 then signs
      else fst (group_outer t [0 ..< length signs] (signs, {})))"

text \<open>
  \<^verbatim>\<open>group_nearby_signs(results, distance_threshold)\<close> on the lists of signs of the
  pages; the threshold defaults to 2.0.
\<close>

definition group_nearby_signs :: "real \<Rightarrow> sign_dict list list \<Rightarrow> sign_dict list list" where
  "group_nearby_signs t pages = map (group_page t) pages"

definition distance_threshold_default :: real where
  "distance_threshold_default = 2.0"

text \<open>
  Labels placed on a page: scenario C of the specification, and a series label next to
  a plain label with the same four digits.
\<close>

definition placed :: "string \<Rightarrow> real \<Rightarrow> real \<Rightarrow> sign_dict" where
  "placed s x y =
     \<lparr>d_sign_number = s, text_bbox = (0, 0, 0, 0), hotspot_bbox = (x, y, 4, 2),
      dict_confidence = ''embedded'', group = None, group_size = None\<rparr>"

definition scenario_c_signs :: "sign_dict list" where
  "scenario_c_signs = [placed ''2001.1'' 10.0 20.0, placed ''2001.2'' 10.0 21.5]"


text \<open>
  Writing the annotations of a plan: the entry of index \<open>j\<close> gets the label and size
  the plan holds for \<open>j\<close>, if any.
\<close>

definition apply_plan :: "(nat \<rightharpoonup> string \<times> nat) \<Rightarrow> sign_dict list \<Rightarrow> sign_dict list" where
  "apply_plan A signs =
     map (\<lambda>j. case A j of None \<Rightarrow> signs ! j | Some (l, n) \<Rightarrow> annotate l n (signs ! j))
         [0 ..< length signs]"

fun plan_group :: "string \<times> nat \<Rightarrow> nat list \<Rightarrow> (nat \<rightharpoonup> string \<times> nat) \<Rightarrow> (nat \<rightharpoonup> string \<times> nat)" where
  "plan_group v [] A = A"
| "plan_group v (j # js) A = plan_group v js (A(j \<mapsto> v))"

definition plan_step ::
  "real \<Rightarrow> sign_dict list \<Rightarrow> nat \<Rightarrow> (nat \<rightharpoonup> string \<times> nat) \<times> nat set \<Rightarrow> (nat \<rightharpoonup> string \<times> nat) \<times> nat set" where
  "plan_step t signs i st =
     (case st of (A, used) \<Rightarrow>
        if i \<in> used then (A, used)
        else
          (case seed_group t signs used i of (grp, used') \<Rightarrow>
             if length grp > 1
             then (plan_group (group_label (base_number (d_sign_number (signs ! i))) (length grp),
                               length grp) grp A, used')
             else (A, used')))"

fun plan_outer ::
  "real \<Rightarrow> sign_dict list \<Rightarrow> nat list \<Rightarrow> (nat \<rightharpoonup> string \<times> nat) \<times> nat set \<Rightarrow> (nat \<rightharpoonup> string \<times> nat) \<times> nat set" where
  "plan_outer t signs [] st = st"
| "plan_outer t signs (i # is) st = plan_outer t signs is (plan_step t signs i st)"

section \<open>Facts about the primitives\<close>




section \<open>Stacked-box splitter: results\<close>





section \<open>OCR ensemble extractor: the cropped region\<close>

text \<open>
  C5, as stated, fails: for the box \<open>(100, 100, 40, 40)\<close> on a 1000 x 1000 page the
  code crops down to row 150, ten rows below the bottom edge of the box at 140.
\<close>

theorem roi_bounds_counterexample:
  "roi_bounds (1000, 1000) (100, 100, 40, 40) = (80, 50, 160, 150) \<and>
   claimed_roi (1000, 1000) (100, 100, 40, 40) = (80, 50, 160, 140) \<and>
   roi_bounds (1000, 1000) (100, 100, 40, 40) \<noteq> claimed_roi (1000, 1000) (100, 100, 40, 40)"
  by (simp add: roi_bounds_def claimed_roi_def)

text \<open>
  C5, amended. For a box inside the page the crop is the box grown by 50 pixels above,
  20 pixels on each horizontal side and 10 pixels below, each margin cut short where
  the page ends: the left and top edges are clamped at 0, the right and bottom edges at
  the page width and height, so the crop stays inside the page and contains the box.
\<close>

theorem roi_bounds_margins:
  "0 \<le> x \<Longrightarrow> 0 \<le> y \<Longrightarrow> 0 \<le> w \<Longrightarrow> 0 \<le> h \<Longrightarrow> x + w \<le> width \<Longrightarrow> y + h \<le> height \<Longrightarrow>
     (\<exists>x_start y_start x_end y_end.
        roi_bounds (height, width) (x, y, w, h) = (x_start, y_start, x_end, y_end) \<and>
        x - x_start = min 20 x \<and>
        y - y_start = min 50 y \<and>
        x_end - (x + w) = min 20 (width - (x + w)) \<and>
        y_end - (y + h) = min 10 (height - (y + h)) \<and>
        0 \<le> x_start \<and> x_start \<le> x_end \<and> x_end \<le> width \<and>
        0 \<le> y_start \<and> y_start \<le> y_end \<and> y_end \<le> height)"
  by (simp add: roi_bounds_def Let_def min_def max_def)

theorem roi_bounds_margins_witness:
  "(0::int) \<le> 10 \<and> (0::int) \<le> 970 \<and> (0::int) \<le> 40 \<and> (0::int) \<le> 25 \<and>
   (10::int) + 40 \<le> 1000 \<and> (970::int) + 25 \<le> 1000 \<and>
   roi_bounds (1000, 1000) (10, 970, 40, 25) = (0, 920, 70, 1000)"
proof -
  have "\<exists>x_start y_start x_end y_end.
        roi_bounds (1000, 1000) (10, 970, 40, 25) = (x_start, y_start, x_end, y_end) \<and>
        10 - x_start = min 20 10 \<and>
        970 - y_start = min 50 970 \<and>
        x_end - (10 + 40) = min 20 (1000 - (10 + 40)) \<and>
        y_end - (970 + 25) = min 10 (1000 - (970 + 25)) \<and>
        0 \<le> x_start \<and> x_start \<le> x_end \<and> x_end \<le> 1000 \<and>
        0 \<le> y_start \<and> y_start \<le> y_end \<and> y_end \<le> 1000"
    by (rule roi_bounds_margins) simp_all
  then show ?thesis by auto
qed

section \<open>OCR ensemble extractor: acceptance and selection\<close>

lemma py_split_length: "length (py_split sep s) = Suc (count_list s sep)"
  by (induction s) (auto split: list.splits)

lemma clean_sign_number_eq:
  "clean_sign_number t =
     (if list_ex py_isdigit (strip_dots t) \<and> count_list (strip_dots t) (CHR ''.'') \<le> 1
      then strip_dots t else [])"
  by (simp add: clean_sign_number_def Let_def py_split_length)

lemma strip_dots_Nil: "strip_dots [] = []"
  by (simp add: strip_dots_def strip_with_def)

lemma try_combination_survives:
  "try_combination reply name m =
     (if survives reply then Some (candidate_of reply name m) else None)"
proof (cases "image_to_string reply")
  case Raised
  then show ?thesis by (simp add: try_combination_def survives_def)
next
  case (Returned raw)
  note raw = this
  show ?thesis
  proof (cases "image_to_data reply")
    case Raised
    with raw show ?thesis by (simp add: try_combination_def survives_def Let_def)
  next
    case (Returned conf)
    with raw show ?thesis
      by (auto simp: try_combination_def survives_def candidate_of_def averaged_def Let_def
                     clean_sign_number_eq strip_dots_Nil)
  qed
qed

lemma ocr_loop_map_filter:
  "ocr_loop engine r cs results
     = results @ List.map_filter (\<lambda>(name, m). try_combination (engine r name m) name m) cs"
  by (induction cs arbitrary: results) (auto split: option.splits)

lemma py_max_mem: "py_max best rs \<in> set (best # rs)"
  by (induction rs arbitrary: best) auto

lemma key_less_trans: "key_less a b \<Longrightarrow> key_less b c \<Longrightarrow> key_less a c"
  by (auto simp: key_less_def)

lemma not_key_less_trans: "\<not> key_less a b \<Longrightarrow> \<not> key_less b c \<Longrightarrow> \<not> key_less a c"
  by (auto simp: key_less_def)

lemma py_max_ge_best: "\<not> key_less (result_key (py_max best rs)) (result_key best)"
proof (induction rs arbitrary: best)
  case Nil
  show ?case by (simp add: key_less_def)
next
  case (Cons res rs)
  show ?case
  proof (cases "key_less (result_key best) (result_key res)")
    case True
    have a: "\<not> key_less (result_key (py_max res rs)) (result_key res)" by (rule Cons.IH)
    have b: "\<not> key_less (result_key res) (result_key best)"
      using True by (auto simp: key_less_def)
    show ?thesis using True not_key_less_trans [OF a b] by simp
  next
    case False
    then show ?thesis using Cons.IH by simp
  qed
qed

lemma py_max_greatest:
  "res \<in> set (best # rs) \<Longrightarrow> \<not> key_less (result_key (py_max best rs)) (result_key res)"
proof (induction rs arbitrary: best)
  case Nil
  then show ?case by (simp add: key_less_def)
next
  case (Cons a rs)
  show ?case
  proof (cases "key_less (result_key best) (result_key a)")
    case True
    show ?thesis
    proof (cases "res = best")
      case True
      have "\<not> key_less (result_key (py_max a rs)) (result_key a)" by (rule py_max_ge_best)
      moreover have "\<not> key_less (result_key a) (result_key best)"
        using \<open>key_less (result_key best) (result_key a)\<close> by (auto simp: key_less_def)
      ultimately have "\<not> key_less (result_key (py_max a rs)) (result_key best)"
        by (rule not_key_less_trans)
      then show ?thesis using True \<open>key_less (result_key best) (result_key a)\<close> by simp
    next
      case False
      with Cons.prems have "res \<in> set (a # rs)" by auto
      then show ?thesis using Cons.IH True by simp
    qed
  next
    case False
    show ?thesis
    proof (cases "res = a")
      case True
      have "\<not> key_less (result_key (py_max best rs)) (result_key best)" by (rule py_max_ge_best)
      then have "\<not> key_less (result_key (py_max best rs)) (result_key a)"
        using False by (rule not_key_less_trans)
      then show ?thesis using True False by simp
    next
      case ne: False
      with Cons.prems have "res \<in> set (best # rs)" by auto
      then show ?thesis using Cons.IH False by simp
    qed
  qed
qed

lemma set_map_filter_conv:
  "set (List.map_filter f xs) = {y. \<exists>x \<in> set xs. f x = Some y}"
  by (induction xs) (auto split: option.splits)

lemma ocr_candidates_set:
  "set (ocr_candidates engine shape bbox)
     = {candidate_of (engine (roi_bounds shape bbox) name m) name m | name m.
          (name, m) \<in> set combinations \<and> survives (engine (roi_bounds shape bbox) name m)}"
  (is "?L = ?R")
proof
  show "?L \<subseteq> ?R"
    by (auto simp: ocr_candidates_def ocr_loop_map_filter set_map_filter_conv
                   try_combination_survives split: if_splits) blast
next
  show "?R \<subseteq> ?L"
  proof
    fix c assume "c \<in> ?R"
    then obtain name m where c: "c = candidate_of (engine (roi_bounds shape bbox) name m) name m"
      and nm: "(name, m) \<in> set combinations"
      and sv: "survives (engine (roi_bounds shape bbox) name m)" by blast
    have "(case (name, m) of (name, m) \<Rightarrow>
             try_combination (engine (roi_bounds shape bbox) name m) name m) = Some c"
      using sv c by (simp add: try_combination_survives)
    with nm show "c \<in> ?L"
      by (force simp: ocr_candidates_def ocr_loop_map_filter set_map_filter_conv)
  qed
qed

lemma survives_confidence:
  "survives reply \<Longrightarrow> 30 < confidence (candidate_of reply name m)"
  by (auto simp: survives_def candidate_of_def Let_def split: attempt.splits)

text \<open>
  C3. The extractor returns no detection exactly when no combination survives;
  otherwise it returns the candidate of a surviving combination whose key
  (confidence, then text length) no surviving candidate exceeds, and the confidence of
  what it returns is above 30.
\<close>

theorem extract_sign_number_selects:
  "(extract_sign_number engine shape bbox = None \<longleftrightarrow>
      (\<forall>(name, m) \<in> set combinations. \<not> survives (engine (roi_bounds shape bbox) name m))) \<and>
   (\<forall>res. extract_sign_number engine shape bbox = Some res \<longrightarrow>
      (\<exists>(name, m) \<in> set combinations.
          survives (engine (roi_bounds shape bbox) name m) \<and>
          res = candidate_of (engine (roi_bounds shape bbox) name m) name m) \<and>
      (\<forall>(name, m) \<in> set combinations.
          survives (engine (roi_bounds shape bbox) name m) \<longrightarrow>
          \<not> key_less (result_key res)
                (result_key (candidate_of (engine (roi_bounds shape bbox) name m) name m))) \<and>
      30 < confidence res)"
proof (intro conjI allI impI)
  show "extract_sign_number engine shape bbox = None \<longleftrightarrow>
      (\<forall>(name, m) \<in> set combinations. \<not> survives (engine (roi_bounds shape bbox) name m))"
  proof -
    have "extract_sign_number engine shape bbox = None
            \<longleftrightarrow> set (ocr_candidates engine shape bbox) = {}"
      by (simp add: extract_sign_number_def split: list.splits)
    also have "\<dots> \<longleftrightarrow>
       (\<forall>(name, m) \<in> set combinations. \<not> survives (engine (roi_bounds shape bbox) name m))"
      unfolding ocr_candidates_set by auto
    finally show ?thesis .
  qed
next
  fix res
  assume some: "extract_sign_number engine shape bbox = Some res"
  then obtain c cs where cs: "ocr_candidates engine shape bbox = c # cs"
    and res: "res = py_max c cs"
    by (auto simp: extract_sign_number_def split: list.splits)
  have "res \<in> set (ocr_candidates engine shape bbox)"
    unfolding cs res by (rule py_max_mem)
  then obtain name m where nm: "(name, m) \<in> set combinations"
    and sv: "survives (engine (roi_bounds shape bbox) name m)"
    and eq: "res = candidate_of (engine (roi_bounds shape bbox) name m) name m"
    unfolding ocr_candidates_set by auto
  show "\<exists>(name, m) \<in> set combinations.
          survives (engine (roi_bounds shape bbox) name m) \<and>
          res = candidate_of (engine (roi_bounds shape bbox) name m) name m"
    using nm sv eq by auto
  show "30 < confidence res" using sv eq by (simp add: survives_confidence)
  show "\<forall>(name, m) \<in> set combinations.
          survives (engine (roi_bounds shape bbox) name m) \<longrightarrow>
          \<not> key_less (result_key res)
                (result_key (candidate_of (engine (roi_bounds shape bbox) name m) name m))"
  proof (clarify)
    fix n' m'
    assume "(n', m') \<in> set combinations" "survives (engine (roi_bounds shape bbox) n' m')"
      and kl: "key_less (result_key res)
                (result_key (candidate_of (engine (roi_bounds shape bbox) n' m') n' m'))"
    then have "candidate_of (engine (roi_bounds shape bbox) n' m') n' m'
                 \<in> set (ocr_candidates engine shape bbox)"
      unfolding ocr_candidates_set by auto
    then have "\<not> key_less (result_key (py_max c cs))
                 (result_key (candidate_of (engine (roi_bounds shape bbox) n' m') n' m'))"
      unfolding cs by (rule py_max_greatest)
    with kl res show False by simp
  qed
qed

lemma combinations_eq:
  "combinations =
     [(''otsu'', 8), (''otsu'', 11), (''otsu_inv'', 8), (''otsu_inv'', 11),
      (''clahe'', 8), (''clahe'', 11), (''clahe_inv'', 8), (''clahe_inv'', 11)]"
  by (simp add: combinations_def preprocess_names_def psm_modes_def)

lemmas ocr_eval =
  extract_sign_number_def ocr_candidates_def combinations_eq try_combination_def
  py_strip_def strip_with_def py_isspace_def clean_sign_number_def strip_dots_def
  py_isdigit_def result_key_def key_less_def Let_def

lemma sample_engine_reads:
  "extract_sign_number sample_engine (1000, 1000) (100, 100, 40, 40)
     = Some \<lparr>result_text = ''2001.1'', confidence = 85, psm = 8, preprocess = ''otsu''\<rparr>"
  by (simp add: ocr_eval sample_engine_def)

lemma failing_engine_reads:
  "extract_sign_number failing_engine shape b = None"
  by (simp add: ocr_eval failing_engine_def)

theorem extract_sign_number_selects_witness:
  "extract_sign_number sample_engine (1000, 1000) (100, 100, 40, 40)
     = Some \<lparr>result_text = ''2001.1'', confidence = 85, psm = 8, preprocess = ''otsu''\<rparr> \<and>
   (\<exists>(name, m) \<in> set combinations.
       survives (sample_engine (roi_bounds (1000, 1000) (100, 100, 40, 40)) name m)) \<and>
   extract_sign_number failing_engine (1000, 1000) (100, 100, 40, 40) = None \<and>
   \<not> (\<exists>(name, m) \<in> set combinations.
       survives (failing_engine (roi_bounds (1000, 1000) (100, 100, 40, 40)) name m))"
proof -
  note a = extract_sign_number_selects
             [of sample_engine "(1000, 1000)" "(100, 100, 40, 40)", THEN conjunct1]
  note b = extract_sign_number_selects
             [of failing_engine "(1000, 1000)" "(100, 100, 40, 40)", THEN conjunct1]
  have "\<not> (\<forall>(name, m) \<in> set combinations.
       \<not> survives (sample_engine (roi_bounds (1000, 1000) (100, 100, 40, 40)) name m))"
    unfolding a [symmetric] by (simp add: sample_engine_reads)
  then have c1: "\<exists>(name, m) \<in> set combinations.
       survives (sample_engine (roi_bounds (1000, 1000) (100, 100, 40, 40)) name m)"
    by blast
  have "\<forall>(name, m) \<in> set combinations.
       \<not> survives (failing_engine (roi_bounds (1000, 1000) (100, 100, 40, 40)) name m)"
    unfolding b [symmetric] by (rule failing_engine_reads)
  then have c2: "\<not> (\<exists>(name, m) \<in> set combinations.
       survives (failing_engine (roi_bounds (1000, 1000) (100, 100, 40, 40)) name m))"
    by blast
  show ?thesis using sample_engine_reads failing_engine_reads c1 c2 by blast
qed

section \<open>OCR ensemble extractor: engine failures\<close>







section \<open>Embedded-text extractor: labels\<close>

lemmas text_eval =
  extract_signs_from_page_def structured_walk_def dict_spans_def make_hotspot_def
  SIGN_PATTERN_match_def label_body_def re_digit_def py_strip_def strip_with_def
  py_isspace_def HOTSPOT_EXPANSION_def Let_def

lemma SIGN_PATTERN_match_body: "SIGN_PATTERN_match s = Some g \<Longrightarrow> label_body g"
  by (auto simp: SIGN_PATTERN_match_def split: if_splits)

lemma make_hotspot_number: "make_hotspot pw ph n number tx ty tw th = Inr s \<Longrightarrow> sign_number s = number"
  by (auto simp: make_hotspot_def Let_def split: if_splits)

lemma span_walk_labels:
  "span_walk pw ph n sps signs = Inr out \<Longrightarrow> \<forall>s \<in> set signs. label_body (sign_number s) \<Longrightarrow>
     \<forall>s \<in> set out. label_body (sign_number s)"
proof (induction sps arbitrary: signs)
  case Nil
  then show ?case by simp
next
  case (Cons sp sps)
  show ?case
  proof (cases "SIGN_PATTERN_match (py_strip (span_text sp))")
    case None
    with Cons show ?thesis by simp
  next
    case (Some number)
    obtain b0 b1 b2 b3 where bb: "span_bbox sp = (b0, b1, b2, b3)" by (cases "span_bbox sp") auto
    from Cons.prems(1) Some bb obtain s where
      mk: "make_hotspot pw ph n number b0 b1 (b2 - b0) (b3 - b1) = Inr s" and
      rest: "span_walk pw ph n sps (signs @ [s]) = Inr out"
      by (auto split: sum.splits)
    have "label_body (sign_number s)"
      using make_hotspot_number [OF mk] SIGN_PATTERN_match_body [OF Some] by simp
    with Cons.prems(2) have "\<forall>s \<in> set (signs @ [s]). label_body (sign_number s)" by simp
    with Cons.IH [OF rest] show ?thesis .
  qed
qed

lemma line_walk_labels:
  "line_walk pw ph n geom k ls signs = Inr out \<Longrightarrow> \<forall>s \<in> set signs. label_body (sign_number s) \<Longrightarrow>
     \<forall>s \<in> set out. label_body (sign_number s)"
proof (induction ls arbitrary: signs)
  case Nil
  then show ?case by simp
next
  case (Cons l ls)
  show ?case
  proof (cases "SIGN_PATTERN_match (py_strip l)")
    case None
    with Cons show ?thesis by simp
  next
    case (Some number)
    show ?thesis
    proof (cases "list_ex (\<lambda>s. sign_number s = number) signs")
      case True
      with Cons Some show ?thesis by simp
    next
      case False
      obtain x0 y0 x1 y1 where g: "geom = (x0, y0, x1, y1)" by (cases geom) auto
      from Cons.prems(1) Some False g obtain s where
        mk: "make_hotspot pw ph n number x0 y0 (x1 - x0) ((y1 - y0) / real k) = Inr s" and
        rest: "line_walk pw ph n geom k ls (signs @ [s]) = Inr out"
        by (auto split: sum.splits)
      have "label_body (sign_number s)"
        using make_hotspot_number [OF mk] SIGN_PATTERN_match_body [OF Some] by simp
      with Cons.prems(2) have "\<forall>s \<in> set (signs @ [s]). label_body (sign_number s)" by simp
      with Cons.IH [OF rest] show ?thesis .
    qed
  qed
qed

lemma block_walk_labels:
  "block_walk pw ph n bs signs = Inr out \<Longrightarrow> \<forall>s \<in> set signs. label_body (sign_number s) \<Longrightarrow>
     \<forall>s \<in> set out. label_body (sign_number s)"
proof (induction bs arbitrary: signs)
  case Nil
  then show ?case by simp
next
  case (Cons b bs)
  obtain x0 y0 x1 y1 content bn bt where b: "b = (x0, y0, x1, y1, content, bn, bt)"
    by (cases b) auto
  from Cons.prems(1) b obtain mid where
    lw: "line_walk pw ph n (x0, y0, x1, y1) (length (py_split (CHR 0x0A) (py_strip content)))
           (py_split (CHR 0x0A) (py_strip content)) signs = Inr mid" and
    rest: "block_walk pw ph n bs mid = Inr out"
    by (auto simp: Let_def split: sum.splits)
  from line_walk_labels [OF lw Cons.prems(2)] Cons.IH [OF rest] show ?case by simp
qed

text \<open>Every label the extractor emits matches the label pattern.\<close>

lemma extract_labels_match_pattern:
  "extract_signs_from_page p n = Inr signs \<Longrightarrow> s \<in> set signs \<Longrightarrow> label_body (sign_number s)"
proof -
  assume ex: "extract_signs_from_page p n = Inr signs" and s: "s \<in> set signs"
  from ex obtain S where sw: "structured_walk p n = Inr S"
    and bw: "block_walk (page_width p) (page_height p) n (text_blocks p) S = Inr signs"
    by (auto simp: extract_signs_from_page_def split: sum.splits)
  have "\<forall>s \<in> set S. label_body (sign_number s)"
    using sw unfolding structured_walk_def by (rule span_walk_labels) simp
  with bw have "\<forall>s \<in> set signs. label_body (sign_number s)" by (rule block_walk_labels)
  with s show ?thesis by simp
qed

text \<open>
  C1. Every emitted label matches the pattern, as shown above, but the label
  \<^verbatim>\<open>0000\<close> is not kept out by this extractor: on the text layer of scenario A,
  with the runs \<^verbatim>\<open>2001\<close>, \<^verbatim>\<open>2002\<close>, \<^verbatim>\<open>0000\<close> and \<^verbatim>\<open>20011\<close>, it
  emits \<^verbatim>\<open>0000\<close> along with the two labels and rejects only the five-digit run.
  The sibling extractor of \<^verbatim>\<open>extract_atl06.py\<close> tests
  \<^verbatim>\<open>text != "0000"\<close> next to the pattern.
\<close>

theorem extract_emits_0000:
  "labels_of (extract_signs_from_page scenario_a_page 1) = Some [''2001'', ''2002'', ''0000'']"
  by (simp add: labels_of_def scenario_a_page_def text_eval)

section \<open>Hotspot percentages\<close>

text \<open>
  C2, as stated, fails on the embedded-text path: the run \<^verbatim>\<open>2001\<close> with native box
  \<open>(1, 1, 31, 11)\<close> on a 612 x 792 page gets a hotspot whose x and y percentages are
  negative, because the 30% expansion moves the corner off the page and nothing clamps
  it.
\<close>

theorem hotspot_range_counterexample:
  "extract_signs_from_page corner_page 1
     = Inr [\<lparr>sign_number = ''2001'', page = 1, text_x = 1, text_y = 1,
              text_width = 30, text_height = 10,
              hotspot_x_percentage = - (200 / 153),
              hotspot_y_percentage = - (25 / 99),
              hotspot_width_percentage = 400 / 51,
              hotspot_height_percentage = 200 / 99,
              hotspot_confidence = ''embedded''\<rparr>] \<and>
   - (200 / 153) < (0::real) \<and> - (25 / 99) < (0::real)"
  by (simp add: corner_page_def text_eval)

lemma pct_in_range: "0 < d \<Longrightarrow> 0 \<le> v \<Longrightarrow> v \<le> d \<Longrightarrow> in_range ((v / d) * 100)"
  by (simp add: in_range_def divide_le_eq)

lemma make_detection_in_range:
  assumes mk: "make_detection (height, width) (x, y, w, h) res = Inr d"
    and box: "0 \<le> x" "0 \<le> y" "0 \<le> w" "0 \<le> h" "x + w \<le> width" "y + h \<le> height"
  shows "in_range (x_percentage d) \<and> in_range (y_percentage d) \<and>
         in_range (width_percentage d) \<and> in_range (height_percentage d)"
proof -
  from mk have nz: "width \<noteq> 0" "height \<noteq> 0"
    by (auto simp: make_detection_def Let_def split: if_splits)
  with box have pos: "0 < real_of_int width" "0 < real_of_int height" by simp_all
  have d: "x_percentage d = ((real_of_int x + real_of_int w / 2) / real_of_int width) * 100"
          "y_percentage d = ((real_of_int y + real_of_int h / 2) / real_of_int height) * 100"
          "width_percentage d = (real_of_int w / real_of_int width) * 100"
          "height_percentage d = (real_of_int h / real_of_int height) * 100"
    using mk nz by (auto simp: make_detection_def Let_def)
  have bx: "real_of_int x + real_of_int w \<le> real_of_int width"
           "real_of_int y + real_of_int h \<le> real_of_int height"
    using box(5,6) by linarith+
  have r: "0 \<le> real_of_int x" "0 \<le> real_of_int y" "0 \<le> real_of_int w" "0 \<le> real_of_int h"
    using box(1-4) by simp_all
  have "in_range (x_percentage d)" unfolding d using pos(1) r bx by (intro pct_in_range) linarith+
  moreover have "in_range (y_percentage d)"
    unfolding d using pos(2) r bx by (intro pct_in_range) linarith+
  moreover have "in_range (width_percentage d)"
    unfolding d using pos(1) r bx by (intro pct_in_range) linarith+
  moreover have "in_range (height_percentage d)"
    unfolding d using pos(2) r bx by (intro pct_in_range) linarith+
  ultimately show ?thesis by simp
qed

lemma process_boxes_in_range:
  "process_boxes engine shape boxes ds = Inr out \<Longrightarrow>
   \<forall>b \<in> set boxes. box_in_page shape b \<Longrightarrow>
   \<forall>d \<in> set ds. detection_in_range d \<Longrightarrow>
   \<forall>d \<in> set out. detection_in_range d"
proof (induction boxes arbitrary: ds)
  case Nil
  then show ?case by simp
next
  case (Cons b bs)
  show ?case
  proof (cases "extract_sign_number engine shape b")
    case None
    with Cons show ?thesis by simp
  next
    case (Some res)
    from Cons.prems(1) Some obtain d where mk: "make_detection shape b res = Inr d"
      and rest: "process_boxes engine shape bs (ds @ [d]) = Inr out"
      by (auto split: sum.splits)
    obtain height width where sh: "shape = (height, width)" by (cases shape) auto
    obtain x y w h where bx: "b = (x, y, w, h)" by (cases b) auto
    have "box_in_page shape b" using Cons.prems(2) by simp
    then have "detection_in_range d"
      unfolding detection_in_range_def
      using make_detection_in_range [of height width x y w h res d] mk
      by (simp add: sh bx box_in_page_def)
    with Cons.prems(3) have "\<forall>d \<in> set (ds @ [d]). detection_in_range d" by simp
    moreover have "\<forall>b \<in> set bs. box_in_page shape b" using Cons.prems(2) by simp
    ultimately show ?thesis using Cons.IH [OF rest] by blast
  qed
qed

lemma make_hotspot_formula:
  "make_hotspot pw ph n number tx ty tw th = Inr s \<Longrightarrow> hotspot_formula pw ph s"
  by (auto simp: make_hotspot_def hotspot_formula_def HOTSPOT_EXPANSION_def Let_def
           split: if_splits)

lemma span_walk_formula:
  "span_walk pw ph n sps signs = Inr out \<Longrightarrow> \<forall>s \<in> set signs. hotspot_formula pw ph s \<Longrightarrow>
     \<forall>s \<in> set out. hotspot_formula pw ph s"
proof (induction sps arbitrary: signs)
  case Nil
  then show ?case by simp
next
  case (Cons sp sps)
  show ?case
  proof (cases "SIGN_PATTERN_match (py_strip (span_text sp))")
    case None
    with Cons show ?thesis by simp
  next
    case (Some number)
    obtain b0 b1 b2 b3 where bb: "span_bbox sp = (b0, b1, b2, b3)" by (cases "span_bbox sp") auto
    from Cons.prems(1) Some bb obtain s where
      mk: "make_hotspot pw ph n number b0 b1 (b2 - b0) (b3 - b1) = Inr s" and
      rest: "span_walk pw ph n sps (signs @ [s]) = Inr out"
      by (auto split: sum.splits)
    from make_hotspot_formula [OF mk] Cons.prems(2)
    have "\<forall>s \<in> set (signs @ [s]). hotspot_formula pw ph s" by simp
    with Cons.IH [OF rest] show ?thesis .
  qed
qed

lemma line_walk_formula:
  "line_walk pw ph n geom k ls signs = Inr out \<Longrightarrow> \<forall>s \<in> set signs. hotspot_formula pw ph s \<Longrightarrow>
     \<forall>s \<in> set out. hotspot_formula pw ph s"
proof (induction ls arbitrary: signs)
  case Nil
  then show ?case by simp
next
  case (Cons l ls)
  show ?case
  proof (cases "SIGN_PATTERN_match (py_strip l)")
    case None
    with Cons show ?thesis by simp
  next
    case (Some number)
    show ?thesis
    proof (cases "list_ex (\<lambda>s. sign_number s = number) signs")
      case True
      with Cons Some show ?thesis by simp
    next
      case False
      obtain x0 y0 x1 y1 where g: "geom = (x0, y0, x1, y1)" by (cases geom) auto
      from Cons.prems(1) Some False g obtain s where
        mk: "make_hotspot pw ph n number x0 y0 (x1 - x0) ((y1 - y0) / real k) = Inr s" and
        rest: "line_walk pw ph n geom k ls (signs @ [s]) = Inr out"
        by (auto split: sum.splits)
      from make_hotspot_formula [OF mk] Cons.prems(2)
      have "\<forall>s \<in> set (signs @ [s]). hotspot_formula pw ph s" by simp
      with Cons.IH [OF rest] show ?thesis .
    qed
  qed
qed

lemma block_walk_formula:
  "block_walk pw ph n bs signs = Inr out \<Longrightarrow> \<forall>s \<in> set signs. hotspot_formula pw ph s \<Longrightarrow>
     \<forall>s \<in> set out. hotspot_formula pw ph s"
proof (induction bs arbitrary: signs)
  case Nil
  then show ?case by simp
next
  case (Cons b bs)
  obtain x0 y0 x1 y1 content bn bt where b: "b = (x0, y0, x1, y1, content, bn, bt)"
    by (cases b) auto
  from Cons.prems(1) b obtain mid where
    lw: "line_walk pw ph n (x0, y0, x1, y1) (length (py_split (CHR 0x0A) (py_strip content)))
           (py_split (CHR 0x0A) (py_strip content)) signs = Inr mid" and
    rest: "block_walk pw ph n bs mid = Inr out"
    by (auto simp: Let_def split: sum.splits)
  from line_walk_formula [OF lw Cons.prems(2)] Cons.IH [OF rest] show ?case by simp
qed

lemma extract_formula:
  assumes "extract_signs_from_page p n = Inr signs" and "s \<in> set signs"
  shows "hotspot_formula (page_width p) (page_height p) s"
proof -
  from assms(1) obtain S where sw: "structured_walk p n = Inr S"
    and bw: "block_walk (page_width p) (page_height p) n (text_blocks p) S = Inr signs"
    by (auto simp: extract_signs_from_page_def split: sum.splits)
  have "\<forall>s \<in> set S. hotspot_formula (page_width p) (page_height p) s"
    using sw unfolding structured_walk_def by (rule span_walk_formula) simp
  with bw have "\<forall>s \<in> set signs. hotspot_formula (page_width p) (page_height p) s"
    by (rule block_walk_formula)
  with assms(2) show ?thesis by simp
qed

text \<open>
  C2, amended. Every detection of the colour path whose marker box lies inside the page
  raster has all four percentages in \<open>[0, 100]\<close>. An embedded-text detection has its
  hotspot computed from the native box grown by 30% on every side, without clamping;
  its four percentages lie in \<open>[0, 100]\<close> whenever the grown box lies inside the page.
\<close>

theorem percentages_in_range:
  "(process_image engine shape boxes = Inr (ds, bs) \<and> (\<forall>b \<in> set boxes. box_in_page shape b)
      \<longrightarrow> (\<forall>d \<in> set ds. detection_in_range d)) \<and>
   (extract_signs_from_page p n = Inr signs
      \<longrightarrow> (\<forall>s \<in> set signs. expanded_in_page p s \<longrightarrow> hotspot_in_range s))"
proof (intro conjI impI ballI)
  fix d
  assume a: "process_image engine shape boxes = Inr (ds, bs) \<and> (\<forall>b \<in> set boxes. box_in_page shape b)"
    and d: "d \<in> set ds"
  from a have "process_boxes engine shape boxes [] = Inr ds"
    by (auto simp: process_image_def split: sum.splits)
  from process_boxes_in_range [OF this] a d show "detection_in_range d" by simp
next
  fix s
  assume ex: "extract_signs_from_page p n = Inr signs" and s: "s \<in> set signs"
    and e: "expanded_in_page p s"
  from extract_formula [OF ex s] have f: "hotspot_formula (page_width p) (page_height p) s" .
  from e have w: "0 \<le> text_width s" "0 \<le> text_height s"
    and x: "0 \<le> text_x s - 0.3 * text_width s" "text_x s + 1.3 * text_width s \<le> page_width p"
    and y: "0 \<le> text_y s - 0.3 * text_height s" "text_y s + 1.3 * text_height s \<le> page_height p"
    by (simp_all add: expanded_in_page_def)
  from f have nz: "page_width p \<noteq> 0" "page_height p \<noteq> 0" by (simp_all add: hotspot_formula_def)
  have pos: "0 < page_width p" "0 < page_height p" using nz w x y by linarith+
  have fx: "hotspot_x_percentage s = ((text_x s - 0.3 * text_width s) / page_width p) * 100"
    and fy: "hotspot_y_percentage s = ((text_y s - 0.3 * text_height s) / page_height p) * 100"
    and fw: "hotspot_width_percentage s = ((1.6 * text_width s) / page_width p) * 100"
    and fh: "hotspot_height_percentage s = ((1.6 * text_height s) / page_height p) * 100"
    using f by (simp_all add: hotspot_formula_def)
  have "in_range (hotspot_x_percentage s)"
    unfolding fx using pos(1) x(1) by (rule pct_in_range) (use w x in linarith)
  moreover have "in_range (hotspot_y_percentage s)"
    unfolding fy using pos(2) y(1) by (rule pct_in_range) (use w y in linarith)
  moreover have "in_range (hotspot_width_percentage s)"
    unfolding fw using pos(1) by (rule pct_in_range) (use w x in linarith)+
  moreover have "in_range (hotspot_height_percentage s)"
    unfolding fh using pos(2) by (rule pct_in_range) (use w y in linarith)+
  ultimately show "hotspot_in_range s" by (simp add: hotspot_in_range_def)
qed

theorem percentages_in_range_witness:
  "process_image sample_engine (1000, 1000) [(100, 100, 40, 40)]
     = Inr ([\<lparr>det_sign_number = ''2001.1'', x_percentage = 12, y_percentage = 12,
               width_percentage = 4, height_percentage = 4, det_confidence = 85\<rparr>],
            [(100, 100, 40, 40)]) \<and>
   box_in_page (1000, 1000) (100, 100, 40, 40) \<and>
   detection_in_range
     \<lparr>det_sign_number = ''2001.1'', x_percentage = 12, y_percentage = 12,
      width_percentage = 4, height_percentage = 4, det_confidence = 85\<rparr> \<and>
   extract_signs_from_page padded_page 1
     = Inr [\<lparr>sign_number = ''2001'', page = 1, text_x = 100, text_y = 100,
              text_width = 30, text_height = 10,
              hotspot_x_percentage = 2275 / 153,
              hotspot_y_percentage = 2425 / 198,
              hotspot_width_percentage = 400 / 51,
              hotspot_height_percentage = 200 / 99,
              hotspot_confidence = ''embedded''\<rparr>] \<and>
   expanded_in_page padded_page
     \<lparr>sign_number = ''2001'', page = 1, text_x = 100, text_y = 100,
      text_width = 30, text_height = 10,
      hotspot_x_percentage = 2275 / 153,
      hotspot_y_percentage = 2425 / 198,
      hotspot_width_percentage = 400 / 51,
      hotspot_height_percentage = 200 / 99,
      hotspot_confidence = ''embedded''\<rparr> \<and>
   hotspot_in_range
     \<lparr>sign_number = ''2001'', page = 1, text_x = 100, text_y = 100,
      text_width = 30, text_height = 10,
      hotspot_x_percentage = 2275 / 153,
      hotspot_y_percentage = 2425 / 198,
      hotspot_width_percentage = 400 / 51,
      hotspot_height_percentage = 200 / 99,
      hotspot_confidence = ''embedded''\<rparr>"
proof -
  define d where "d = \<lparr>det_sign_number = ''2001.1'', x_percentage = 12, y_percentage = 12,
               width_percentage = 4, height_percentage = 4, det_confidence = 85\<rparr>"
  define s where "s = \<lparr>sign_number = ''2001'', page = 1, text_x = 100, text_y = 100,
              text_width = 30, text_height = 10,
              hotspot_x_percentage = 2275 / 153,
              hotspot_y_percentage = 2425 / 198,
              hotspot_width_percentage = 400 / 51,
              hotspot_height_percentage = 200 / 99,
              hotspot_confidence = ''embedded''\<rparr>"
  have run: "process_image sample_engine (1000, 1000) [(100, 100, 40, 40)]
               = Inr ([d], [(100, 100, 40, 40)])"
    by (simp add: d_def process_image_def sample_engine_reads make_detection_def)
  have inp: "box_in_page (1000, 1000) (100, 100, 40, 40)"
    by (simp add: box_in_page_def)
  have ex: "extract_signs_from_page padded_page 1 = Inr [s]"
    by (simp add: s_def padded_page_def text_eval)
  have exp: "expanded_in_page padded_page s"
    by (simp add: s_def padded_page_def expanded_in_page_def)
  note t = percentages_in_range [of sample_engine "(1000, 1000)" "[(100, 100, 40, 40)]" "[d]"
              "[(100, 100, 40, 40)]" padded_page 1 "[s]"]
  from t run inp have c1: "detection_in_range d" by simp
  from t ex exp have c2: "hotspot_in_range s" by simp
  show ?thesis using run inp ex exp c1 c2 unfolding d_def s_def by simp
qed

section \<open>Embedded-text extractor: the backup scan\<close>

text \<open>
  C6, as stated, fails: on a page where two blocks each read \<^verbatim>\<open>2001\<close> and the
  structured walk captures nothing (each line is stored as two runs), the backup scan
  meets the label twice and keeps only the first find, although the structured walk had
  not captured it.
\<close>

theorem fallback_dedup_counterexample:
  "structured_walk split_runs_page 1 = Inr [] \<and>
   fallback_labels split_runs_page = [''2001'', ''2001''] \<and>
   labels_of (extract_signs_from_page split_runs_page 1) = Some [''2001'']"
  by (simp add: labels_of_def fallback_labels_def block_labels_def line_labels_def
                split_runs_page_def text_eval)

lemma make_hotspot_total:
  "pw \<noteq> 0 \<Longrightarrow> ph \<noteq> 0 \<Longrightarrow>
     \<exists>s. make_hotspot pw ph n number tx ty tw th = Inr s \<and> sign_number s = number"
  by (simp add: make_hotspot_def Let_def)

lemma span_walk_total:
  "pw \<noteq> 0 \<Longrightarrow> ph \<noteq> 0 \<Longrightarrow> \<exists>S. span_walk pw ph n sps signs = Inr (signs @ S)"
proof (induction sps arbitrary: signs)
  case Nil
  then show ?case by simp
next
  case (Cons sp sps)
  show ?case
  proof (cases "SIGN_PATTERN_match (py_strip (span_text sp))")
    case None
    with Cons show ?thesis by simp
  next
    case (Some number)
    obtain b0 b1 b2 b3 where bb: "span_bbox sp = (b0, b1, b2, b3)" by (cases "span_bbox sp") auto
    from make_hotspot_total [OF Cons.prems] obtain s where
      mk: "make_hotspot pw ph n number b0 b1 (b2 - b0) (b3 - b1) = Inr s" by blast
    from Cons.IH [OF Cons.prems, of "signs @ [s]"] obtain S where
      "span_walk pw ph n sps (signs @ [s]) = Inr ((signs @ [s]) @ S)" by blast
    then have "span_walk pw ph n (sp # sps) signs = Inr (signs @ (s # S))"
      using Some bb mk by simp
    then show ?thesis by blast
  qed
qed

lemma line_walk_keep_first:
  "pw \<noteq> 0 \<Longrightarrow> ph \<noteq> 0 \<Longrightarrow>
     \<exists>F. line_walk pw ph n geom k ls signs = Inr (signs @ F) \<and>
         map sign_number F = keep_first (set (map sign_number signs)) (line_labels ls)"
proof (induction ls arbitrary: signs)
  case Nil
  then show ?case by (simp add: line_labels_def)
next
  case (Cons l ls)
  show ?case
  proof (cases "SIGN_PATTERN_match (py_strip l)")
    case None
    with Cons show ?thesis by (simp add: line_labels_def)
  next
    case (Some number)
    have ll: "line_labels (l # ls) = number # line_labels ls"
      using Some by (simp add: line_labels_def)
    show ?thesis
    proof (cases "list_ex (\<lambda>s. sign_number s = number) signs")
      case True
      then have "number \<in> set (map sign_number signs)" by (auto simp: list_ex_iff)
      with Cons.IH [OF Cons.prems, of signs] Some True ll show ?thesis by simp
    next
      case False
      then have notin: "number \<notin> set (map sign_number signs)" by (auto simp: list_ex_iff)
      obtain x0 y0 x1 y1 where g: "geom = (x0, y0, x1, y1)" by (cases geom) auto
      from make_hotspot_total [OF Cons.prems] obtain s where
        mk: "make_hotspot pw ph n number x0 y0 (x1 - x0) ((y1 - y0) / real k) = Inr s"
        and num: "sign_number s = number" by blast
      from Cons.IH [OF Cons.prems, of "signs @ [s]"] obtain F where
        run: "line_walk pw ph n geom k ls (signs @ [s]) = Inr ((signs @ [s]) @ F)" and
        lab: "map sign_number F
                = keep_first (set (map sign_number (signs @ [s]))) (line_labels ls)" by blast
      have "line_walk pw ph n geom k (l # ls) signs = Inr (signs @ (s # F))"
        using Some False g mk run by simp
      moreover have "map sign_number (s # F)
                = keep_first (set (map sign_number signs)) (line_labels (l # ls))"
        using lab num notin ll by simp
      ultimately show ?thesis by blast
    qed
  qed
qed

lemma keep_first_append:
  "keep_first seen (xs @ ys) = keep_first seen xs @ keep_first (seen \<union> set xs) ys"
proof (induction xs arbitrary: seen)
  case Nil
  show ?case by simp
next
  case (Cons x xs)
  show ?case
  proof (cases "x \<in> seen")
    case True
    then have "seen \<union> set (x # xs) = seen \<union> set xs" by auto
    with True Cons.IH [of seen] show ?thesis by simp
  next
    case False
    have "insert x seen \<union> set xs = seen \<union> set (x # xs)" by auto
    with False Cons.IH [of "insert x seen"] show ?thesis by simp
  qed
qed

lemma keep_first_set: "set (keep_first seen xs) = set xs - seen"
  by (induction xs arbitrary: seen) auto

lemma keep_first_distinct: "distinct (keep_first seen xs)"
  by (induction xs arbitrary: seen) (auto simp: keep_first_set)

lemma block_walk_keep_first:
  "pw \<noteq> 0 \<Longrightarrow> ph \<noteq> 0 \<Longrightarrow>
     \<exists>F. block_walk pw ph n bs signs = Inr (signs @ F) \<and>
         map sign_number F = keep_first (set (map sign_number signs)) (block_labels bs)"
proof (induction bs arbitrary: signs)
  case Nil
  then show ?case by (simp add: block_labels_def)
next
  case (Cons b bs)
  obtain x0 y0 x1 y1 content bn bt where b: "b = (x0, y0, x1, y1, content, bn, bt)"
    by (cases b) auto
  define ls where "ls = py_split (CHR 0x0A) (py_strip content)"
  from line_walk_keep_first [OF Cons.prems, of n "(x0, y0, x1, y1)" "length ls" ls signs]
  obtain F1 where
    r1: "line_walk pw ph n (x0, y0, x1, y1) (length ls) ls signs = Inr (signs @ F1)" and
    l1: "map sign_number F1 = keep_first (set (map sign_number signs)) (line_labels ls)"
    by blast
  from Cons.IH [OF Cons.prems, of "signs @ F1"] obtain F2 where
    r2: "block_walk pw ph n bs (signs @ F1) = Inr ((signs @ F1) @ F2)" and
    l2: "map sign_number F2
           = keep_first (set (map sign_number (signs @ F1))) (block_labels bs)"
    by blast
  have run: "block_walk pw ph n (b # bs) signs = Inr (signs @ (F1 @ F2))"
    using b r1 r2 by (simp add: ls_def [symmetric] Let_def)
  have bl: "block_labels (b # bs) = line_labels ls @ block_labels bs"
    by (simp add: block_labels_def b ls_def)
  have "set (map sign_number (signs @ F1))
          = set (map sign_number signs) \<union> set (line_labels ls)"
  proof -
    have "set (map sign_number F1) = set (line_labels ls) - set (map sign_number signs)"
      unfolding l1 by (rule keep_first_set)
    then show ?thesis by auto
  qed
  then have "map sign_number (F1 @ F2)
          = keep_first (set (map sign_number signs)) (block_labels (b # bs))"
    using l1 l2 by (simp add: bl keep_first_append)
  with run show ?case by blast
qed

text \<open>
  C6, amended. On a page of non-zero size, a line of the backup scan whose trimmed
  content matches the label pattern is kept if and only if its label was captured
  neither by the structured walk nor by an earlier line of the backup scan: the result
  is the structured finds followed by the first occurrence of every backup label that
  the structured walk did not capture, each once.
\<close>

theorem fallback_kept_iff_new:
  "page_width p \<noteq> 0 \<Longrightarrow> page_height p \<noteq> 0 \<Longrightarrow>
     \<exists>S F. structured_walk p n = Inr S \<and>
           extract_signs_from_page p n = Inr (S @ F) \<and>
           map sign_number F = keep_first (set (map sign_number S)) (fallback_labels p) \<and>
           distinct (map sign_number F) \<and>
           set (map sign_number F) = set (fallback_labels p) - set (map sign_number S)"
proof -
  assume nz: "page_width p \<noteq> 0" "page_height p \<noteq> 0"
  from span_walk_total [OF nz, of n "dict_spans (dict_blocks p)" "[]"] obtain S where
    sw: "structured_walk p n = Inr S" by (auto simp: structured_walk_def)
  from block_walk_keep_first [OF nz, of n "text_blocks p" S] obtain F where
    bw: "block_walk (page_width p) (page_height p) n (text_blocks p) S = Inr (S @ F)" and
    lab: "map sign_number F = keep_first (set (map sign_number S)) (block_labels (text_blocks p))"
    by blast
  have lab': "map sign_number F = keep_first (set (map sign_number S)) (fallback_labels p)"
    using lab by (simp only: fallback_labels_def)
  have ex: "extract_signs_from_page p n = Inr (S @ F)"
    using sw bw by (simp add: extract_signs_from_page_def)
  have di: "distinct (map sign_number F)"
    unfolding lab' by (rule keep_first_distinct)
  have se: "set (map sign_number F) = set (fallback_labels p) - set (map sign_number S)"
    unfolding lab' by (rule keep_first_set)
  from sw ex lab' di se show ?thesis by blast
qed

theorem fallback_kept_iff_new_witness:
  "page_width split_runs_page \<noteq> 0 \<and> page_height split_runs_page \<noteq> 0 \<and>
   structured_walk split_runs_page 1 = Inr [] \<and>
   fallback_labels split_runs_page = [''2001'', ''2001''] \<and>
   (\<exists>F. extract_signs_from_page split_runs_page 1 = Inr F \<and> map sign_number F = [''2001''])"
proof -
  have nz: "page_width split_runs_page \<noteq> 0" "page_height split_runs_page \<noteq> 0"
    by (simp_all add: split_runs_page_def)
  have sw: "structured_walk split_runs_page 1 = Inr []"
    by (simp add: split_runs_page_def text_eval)
  have fl: "fallback_labels split_runs_page = [''2001'', ''2001'']"
    by (simp add: fallback_labels_def block_labels_def line_labels_def split_runs_page_def
                  text_eval)
  from fallback_kept_iff_new [OF nz, of 1] obtain S F where
    s: "structured_walk split_runs_page 1 = Inr S" and
    e: "extract_signs_from_page split_runs_page 1 = Inr (S @ F)" and
    l: "map sign_number F
          = keep_first (set (map sign_number S)) (fallback_labels split_runs_page)"
    by blast
  from s sw have S: "S = []" by simp
  have m: "map sign_number F = [''2001'']" using l by (simp add: S fl)
  have x: "extract_signs_from_page split_runs_page 1 = Inr F" using e by (simp add: S)
  have "\<exists>F. extract_signs_from_page split_runs_page 1 = Inr F \<and>
             map sign_number F = [''2001'']"
    by (rule exI [of _ F]) (simp only: m x simp_thms)
  then show ?thesis using nz sw fl by simp
qed

section \<open>Proximity grouper: joining a group\<close>

lemma py_split_not_Nil: "py_split sep s \<noteq> []"
  by (induction s) (auto split: list.splits)

lemma hd_py_split: "hd (py_split sep s) = takeWhile (\<lambda>c. c \<noteq> sep) s"
proof (induction s)
  case Nil
  show ?case by simp
next
  case (Cons c cs)
  then show ?case using py_split_not_Nil [of sep cs] by (auto split: list.splits)
qed

lemma takeWhile_upto_sep:
  "sep \<notin> set b \<Longrightarrow> takeWhile (\<lambda>c. c \<noteq> sep) (b @ sep # r) = b"
  by (induction b) auto

lemma startswith_base_number:
  "startswith c (base_number s @ ''.'') \<longleftrightarrow> is_series c \<and> base_number c = base_number s"
proof -
  let ?P = "\<lambda>ch. ch \<noteq> CHR ''.''"
  have bs: "base_number s = takeWhile ?P s" and bc: "base_number c = takeWhile ?P c"
    by (simp_all add: base_number_def hd_py_split)
  have nodot: "CHR ''.'' \<notin> set (base_number s)"
    unfolding bs by (auto dest: set_takeWhileD)
  show ?thesis
  proof
    assume "startswith c (base_number s @ ''.'')"
    then have tk: "take (length (base_number s) + 1) c = base_number s @ ''.''"
      by (simp add: startswith_def)
    have "c = take (length (base_number s) + 1) c @ drop (length (base_number s) + 1) c"
      by simp
    with tk have c: "c = base_number s @ CHR ''.'' # drop (length (base_number s) + 1) c"
      by simp
    have "CHR ''.'' \<in> set c" by (subst c) simp
    moreover have "takeWhile ?P c = base_number s"
      by (subst c) (rule takeWhile_upto_sep [OF nodot])
    ultimately show "is_series c \<and> base_number c = base_number s"
      by (simp add: is_series_def bc)
  next
    assume a: "is_series c \<and> base_number c = base_number s"
    then have dot: "CHR ''.'' \<in> set c" by (simp add: is_series_def)
    then have "dropWhile ?P c \<noteq> []" by simp
    then obtain r where r: "dropWhile ?P c = CHR ''.'' # r"
      using hd_dropWhile [of ?P c] by (cases "dropWhile ?P c") auto
    have "c = takeWhile ?P c @ dropWhile ?P c" by simp
    with r a bc have "c = base_number s @ CHR ''.'' # r" by simp
    then have "take (length (base_number s @ ''.'')) c = base_number s @ ''.''"
      by (metis append.assoc append_Cons append_Nil append_eq_conv_conj)
    then show "startswith c (base_number s @ ''.'')" by (simp add: startswith_def)
  qed
qed

lemma scan_series_members:
  "set (fst (scan_series t signs i base js (grp, used)))
     = set grp \<union> {j \<in> set js. j \<noteq> i \<and> j \<notin> used \<and>
                     startswith (d_sign_number (signs ! j)) (base @ ''.'') \<and>
                     near t (signs ! i) (signs ! j)}"
proof (induction js arbitrary: grp used)
  case Nil
  show ?case by simp
next
  case (Cons j js)
  show ?case
  proof (cases "j \<noteq> i \<and> j \<notin> used \<and> startswith (d_sign_number (signs ! j)) (base @ ''.'') \<and>
                near t (signs ! i) (signs ! j)")
    case True
    then show ?thesis using Cons.IH [of "grp @ [j]" "insert j used"] by auto
  next
    case False
    then show ?thesis using Cons.IH [of grp used] by auto
  qed
qed

lemma seed_group_members:
  "i < length signs \<Longrightarrow>
   set (fst (seed_group t signs used i))
     = {i} \<union> {j. j < length signs \<and> is_series (d_sign_number (signs ! i)) \<and> j \<noteq> i \<and> j \<notin> used \<and>
                 is_series (d_sign_number (signs ! j)) \<and>
                 base_number (d_sign_number (signs ! j)) = base_number (d_sign_number (signs ! i)) \<and>
                 near t (signs ! i) (signs ! j)}"
  by (auto simp: seed_group_def scan_series_members startswith_base_number)

lemma annotate_annotate: "annotate l n (annotate l' n' s) = annotate l n s"
  by (simp add: annotate_def)




lemma str_nat_2: "str_nat 2 = ''2''"
  by (simp add: str_nat.simps digit_char_def)

lemma str_nat_Suc_Suc: "str_nat (Suc (Suc 0)) = ''2''"
  using str_nat_2 by (simp add: numeral_2_eq_2)

lemmas group_eval =
  group_page_def group_step_def seed_group_def is_series_def base_number_def startswith_def
  near_def bbox_x_percentage_def bbox_y_percentage_def group_label_def annotate_def placed_def
  str_nat_2 str_nat_Suc_Suc

lemma upt_2: "[0 ..< 2] = [0, Suc 0]"
  by (simp add: upt_rec)

lemma scenario_c_grouped:
  "group_page 2 scenario_c_signs
     = [(placed ''2001.1'' 10.0 20.0)
          \<lparr>group := Some ''2001 series (2 signs)'', group_size := Some 2\<rparr>,
        (placed ''2001.2'' 10.0 21.5)
          \<lparr>group := Some ''2001 series (2 signs)'', group_size := Some 2\<rparr>]"
  by (simp add: scenario_c_signs_def group_eval upt_2)




section \<open>Proximity grouper: running it again\<close>

lemma apply_plan_length: "length (apply_plan A s) = length s"
  by (simp add: apply_plan_def)

lemma apply_plan_nth:
  "j < length s \<Longrightarrow>
     apply_plan A s ! j = (case A j of None \<Rightarrow> s ! j | Some (l, n) \<Rightarrow> annotate l n (s ! j))"
  by (simp add: apply_plan_def split: option.splits)

lemma apply_plan_empty: "apply_plan Map.empty s = s"
  by (simp add: apply_plan_def map_nth)

lemma apply_plan_number:
  "j < length s \<Longrightarrow> d_sign_number (apply_plan A s ! j) = d_sign_number (s ! j)"
  by (simp add: apply_plan_nth annotate_def split: option.splits)

lemma apply_plan_hotspot:
  "j < length s \<Longrightarrow> hotspot_bbox (apply_plan A s ! j) = hotspot_bbox (s ! j)"
  by (simp add: apply_plan_nth annotate_def split: option.splits)

lemma near_apply_plan:
  "i < length s \<Longrightarrow> j < length s \<Longrightarrow>
     near t (apply_plan A s ! i) (apply_plan A s ! j) = near t (s ! i) (s ! j)"
  by (simp add: near_def apply_plan_hotspot)

lemma scan_series_apply_plan:
  "i < length s \<Longrightarrow> \<forall>j \<in> set js. j < length s \<Longrightarrow>
     scan_series t (apply_plan A s) i base js st = scan_series t s i base js st"
proof (induction js arbitrary: st)
  case Nil
  show ?case by simp
next
  case (Cons j js)
  obtain grp used where st: "st = (grp, used)" by (cases st) auto
  have j: "j < length s" and rest: "\<forall>j \<in> set js. j < length s" using Cons.prems(2) by simp_all
  show ?case
    unfolding st
    by (simp add: near_apply_plan [OF Cons.prems(1) j] apply_plan_number [OF j]
                  Cons.IH [OF Cons.prems(1) rest])
qed

lemma seed_group_apply_plan:
  "i < length s \<Longrightarrow> seed_group t (apply_plan A s) used i = seed_group t s used i"
  by (simp add: seed_group_def apply_plan_number apply_plan_length scan_series_apply_plan)

lemma update_apply_plan:
  "j < length s \<Longrightarrow>
     (apply_plan A s)[j := annotate l n (apply_plan A s ! j)] = apply_plan (A(j \<mapsto> (l, n))) s"
proof (rule nth_equalityI)
  show "length ((apply_plan A s)[j := annotate l n (apply_plan A s ! j)])
          = length (apply_plan (A(j \<mapsto> (l, n))) s)"
    by (simp add: apply_plan_length)
next
  fix k
  assume j: "j < length s"
    and "k < length ((apply_plan A s)[j := annotate l n (apply_plan A s ! j)])"
  then have k: "k < length s" by (simp add: apply_plan_length)
  show "(apply_plan A s)[j := annotate l n (apply_plan A s ! j)] ! k
          = apply_plan (A(j \<mapsto> (l, n))) s ! k"
  proof (cases "k = j")
    case True
    then show ?thesis
      using j by (simp add: apply_plan_length apply_plan_nth annotate_annotate
                       split: option.splits)
  next
    case False
    then show ?thesis using k by (simp add: apply_plan_nth)
  qed
qed

lemma annotate_group_apply_plan:
  "\<forall>j \<in> set g. j < length s \<Longrightarrow>
     annotate_group l n g (apply_plan A s) = apply_plan (plan_group (l, n) g A) s"
proof (induction g arbitrary: A)
  case Nil
  show ?case by simp
next
  case (Cons j g)
  then have j: "j < length s" and rest: "\<forall>j \<in> set g. j < length s" by simp_all
  have "annotate_group l n (j # g) (apply_plan A s)
          = annotate_group l n g (apply_plan (A(j \<mapsto> (l, n))) s)"
    by (simp only: annotate_group.simps update_apply_plan [OF j])
  also have "\<dots> = apply_plan (plan_group (l, n) g (A(j \<mapsto> (l, n)))) s"
    by (rule Cons.IH [OF rest])
  also have "\<dots> = apply_plan (plan_group (l, n) (j # g) A) s"
    by (simp only: plan_group.simps)
  finally show ?case .
qed

lemma seed_group_bound:
  "i < length s \<Longrightarrow> \<forall>j \<in> set (fst (seed_group t s used i)). j < length s"
  by (auto simp: seed_group_members)

lemma group_step_apply_plan:
  assumes i: "i < length s"
  shows "group_step t i (apply_plan A s, used)
           = (apply_plan (fst (plan_step t s i (A, used))) s, snd (plan_step t s i (A, used)))"
proof (cases "i \<in> used")
  case True
  then show ?thesis by (simp add: group_step_def plan_step_def)
next
  case False
  obtain grp used' where sg: "seed_group t s used i = (grp, used')"
    by (cases "seed_group t s used i") auto
  have b: "\<forall>j \<in> set grp. j < length s" using seed_group_bound [OF i, of t used] sg by simp
  show ?thesis
    using False sg
    by (simp add: group_step_def plan_step_def seed_group_apply_plan [OF i]
                  apply_plan_number [OF i] annotate_group_apply_plan [OF b])
qed

lemma group_outer_apply_plan:
  "\<forall>i \<in> set is. i < length s \<Longrightarrow>
     group_outer t is (apply_plan A s, used)
       = (apply_plan (fst (plan_outer t s is (A, used))) s, snd (plan_outer t s is (A, used)))"
proof (induction "is" arbitrary: A used)
  case Nil
  show ?case by simp
next
  case (Cons i "is")
  then have i: "i < length s" and rest: "\<forall>i \<in> set is. i < length s" by simp_all
  obtain A' used' where ps: "plan_step t s i (A, used) = (A', used')"
    by (cases "plan_step t s i (A, used)") auto
  have st: "group_step t i (apply_plan A s, used) = (apply_plan A' s, used')"
    using group_step_apply_plan [OF i, of t A used] by (simp only: ps fst_conv snd_conv)
  have "group_outer t (i # is) (apply_plan A s, used)
          = group_outer t is (apply_plan A' s, used')"
    by (simp only: group_outer.simps st)
  also have "\<dots> = (apply_plan (fst (plan_outer t s is (A', used'))) s,
                     snd (plan_outer t s is (A', used')))"
    by (rule Cons.IH [OF rest])
  also have "plan_outer t s is (A', used') = plan_outer t s (i # is) (A, used)"
    by (simp only: plan_outer.simps ps)
  finally show ?case .
qed

lemma plan_group_add: "plan_group v g (A ++ B) = A ++ plan_group v g B"
proof (induction g arbitrary: B)
  case Nil
  show ?case by simp
next
  case (Cons j g)
  have "plan_group v (j # g) (A ++ B) = plan_group v g (A ++ B(j \<mapsto> v))"
    by (simp only: plan_group.simps map_add_upd)
  also have "\<dots> = A ++ plan_group v g (B(j \<mapsto> v))" by (rule Cons.IH)
  also have "\<dots> = A ++ plan_group v (j # g) B" by (simp only: plan_group.simps)
  finally show ?case .
qed

lemma plan_step_add:
  "plan_step t s i (A ++ B, used)
     = (A ++ fst (plan_step t s i (B, used)), snd (plan_step t s i (B, used)))"
  by (simp add: plan_step_def plan_group_add split: prod.splits)

lemma plan_outer_add:
  "plan_outer t s is (A ++ B, used)
     = (A ++ fst (plan_outer t s is (B, used)), snd (plan_outer t s is (B, used)))"
proof (induction "is" arbitrary: B used)
  case Nil
  show ?case by simp
next
  case (Cons i "is")
  obtain B' used' where ps: "plan_step t s i (B, used) = (B', used')"
    by (cases "plan_step t s i (B, used)") auto
  have st: "plan_step t s i (A ++ B, used) = (A ++ B', used')"
    using plan_step_add [of t s i A B used] by (simp only: ps fst_conv snd_conv)
  have "plan_outer t s (i # is) (A ++ B, used) = plan_outer t s is (A ++ B', used')"
    by (simp only: plan_outer.simps st)
  also have "\<dots> = (A ++ fst (plan_outer t s is (B', used')),
                     snd (plan_outer t s is (B', used')))"
    by (rule Cons.IH)
  also have "plan_outer t s is (B', used') = plan_outer t s (i # is) (B, used)"
    by (simp only: plan_outer.simps ps)
  finally show ?case .
qed

lemma map_add_self: "(m :: 'a \<rightharpoonup> 'b) ++ m = m"
  by (rule ext) (simp add: map_add_def split: option.splits)

lemma group_page_as_plan:
  "group_page t s
     = apply_plan (if length s < 2 then Map.empty
                   else fst (plan_outer t s [0 ..< length s] (Map.empty, {}))) s"
proof (cases "length s < 2")
  case True
  then show ?thesis by (simp add: group_page_def apply_plan_empty)
next
  case False
  have "group_outer t [0 ..< length s] (apply_plan Map.empty s, {})
          = (apply_plan (fst (plan_outer t s [0 ..< length s] (Map.empty, {}))) s,
             snd (plan_outer t s [0 ..< length s] (Map.empty, {})))"
    by (rule group_outer_apply_plan) simp
  then show ?thesis using False by (simp add: group_page_def apply_plan_empty)
qed

lemma group_page_idempotent: "group_page t (group_page t s) = group_page t s"
proof (cases "length s < 2")
  case True
  then show ?thesis by (simp add: group_page_def)
next
  case False
  define P where "P = fst (plan_outer t s [0 ..< length s] (Map.empty, {}))"
  have once: "group_page t s = apply_plan P s"
    using False by (simp add: group_page_as_plan P_def)
  have "group_outer t [0 ..< length s] (apply_plan P s, {})
          = (apply_plan (fst (plan_outer t s [0 ..< length s] (P, {}))) s,
             snd (plan_outer t s [0 ..< length s] (P, {})))"
    by (rule group_outer_apply_plan) simp
  moreover have "fst (plan_outer t s [0 ..< length s] (P, {})) = P"
  proof -
    have "plan_outer t s [0 ..< length s] (P ++ Map.empty, {})
            = (P ++ fst (plan_outer t s [0 ..< length s] (Map.empty, {})),
               snd (plan_outer t s [0 ..< length s] (Map.empty, {})))"
      by (rule plan_outer_add)
    then show ?thesis by (simp add: P_def [symmetric] map_add_self)
  qed
  ultimately have "fst (group_outer t [0 ..< length (apply_plan P s)] (apply_plan P s, {}))
                     = apply_plan P s"
    by (simp add: apply_plan_length)
  then have "group_page t (apply_plan P s) = apply_plan P s"
    using False by (simp add: group_page_def apply_plan_length)
  then show ?thesis by (simp add: once)
qed

text \<open>
  C9. Running the grouper on its own output gives that output again: every sign keeps
  the group label and group size the first run gave it, and no other sign gets one.
\<close>

theorem group_nearby_signs_idempotent:
  "group_nearby_signs t (group_nearby_signs t pages) = group_nearby_signs t pages"
  by (simp add: group_nearby_signs_def group_page_idempotent)

theorem group_nearby_signs_idempotent_witness:
  "group_nearby_signs 2 (group_nearby_signs 2 [scenario_c_signs])
     = [[(placed ''2001.1'' 10.0 20.0)
           \<lparr>group := Some ''2001 series (2 signs)'', group_size := Some 2\<rparr>,
         (placed ''2001.2'' 10.0 21.5)
           \<lparr>group := Some ''2001 series (2 signs)'', group_size := Some 2\<rparr>]]"
proof -
  have "group_nearby_signs 2 [scenario_c_signs]
     = [[(placed ''2001.1'' 10.0 20.0)
           \<lparr>group := Some ''2001 series (2 signs)'', group_size := Some 2\<rparr>,
         (placed ''2001.2'' 10.0 21.5)
           \<lparr>group := Some ''2001 series (2 signs)'', group_size := Some 2\<rparr>]]"
    by (simp add: group_nearby_signs_def scenario_c_grouped)
  then show ?thesis
    using group_nearby_signs_idempotent [of 2 "[scenario_c_signs]"] by simp
qed

end
